theory Spec2Isabelle
  imports Complex_Main "HOL-Library.AList"
begin

section \<open>The marble game logic of \<open>VCB01/logic.py\<close>\<close>

text \<open>
  The module is embedded function by function. Python's \<open>float\<close> is modelled by
  \<^typ>\<open>real\<close> (so \<open>float(x)\<close> is the identity, and infinities and NaN are outside the
  model), and its arithmetic is exact, with one exception: the sums and differences of the
  bounce tests of \<open>step\<close> are rounded to a double by \<open>fl\<close>, because whether a ball stays inside
  the world depends on that rounding. A Python \<open>dict\<close> keeps its keys in insertion order,
  and the code depends on that order (\<open>spit_next\<close> pops the first entry, \<open>step\<close> enumerates
  pairs in it), so a dict is an
  association list: \<open>d[k] = v\<close> is \<^const>\<open>AList.update\<close> (in place for an old key, at the
  end for a new one), \<open>d.pop(k, None)\<close> and \<open>del d[k]\<close> are \<^const>\<open>map_of\<close> and
  \<^const>\<open>AList.delete\<close>. The mutable \<open>GameLogic\<close> object is a record that every method takes
  and returns. Exceptions are values of type \<open>error\<close>.
\<close>

subsection \<open>Data model\<close>

type_synonym Vector = "real \<times> real"

type_synonym ColorRGB = "real \<times> real \<times> real"

record Rect =
  rect_x :: real
  rect_y :: real
  rect_width :: real
  rect_height :: real

definition contains_point :: "Rect \<Rightarrow> Vector \<Rightarrow> bool" where
  "contains_point r point =
     (let (px, py) = point
      in (rect_x r \<le> px \<and> px \<le> rect_x r + rect_width r)
         \<and> (rect_y r \<le> py \<and> py \<le> rect_y r + rect_height r))"

record Ball =
  ball_id :: string
  position :: Vector
  velocity :: Vector
  radius :: real
  color_rgb :: ColorRGB
  mass :: real

text \<open>The dataclass constructor together with \<open>__post_init__\<close>, which sets the mass.\<close>

definition new_Ball :: "string \<Rightarrow> Vector \<Rightarrow> Vector \<Rightarrow> real \<Rightarrow> ColorRGB \<Rightarrow> Ball" where
  "new_Ball bid pos vel r col =
     \<lparr>ball_id = bid, position = pos, velocity = vel, radius = r, color_rgb = col,
      mass = max (1 / 1000000) (pi * r ^ 2)\<rparr>"

record StepResult =
  time_advanced_s :: real
  mixed_pairs :: "(string \<times> string) list"
  deleted_ball_ids :: "string list"
  captured_ball_ids :: "string list"
  released_ball_ids :: "string list"

record Suction =
  is_active :: bool
  s_position :: Vector
  s_radius :: real
  strength :: real
  capture_radius :: real

definition new_Suction :: Suction where
  "new_Suction =
     \<lparr>is_active = False, s_position = (0, 0), s_radius = 160, strength = 1200,
      capture_radius = 28\<rparr>"

datatype error = ZeroDivisionError | TypeError

subsection \<open>Numeric helpers\<close>

definition clamp :: "real \<Rightarrow> real \<Rightarrow> real \<Rightarrow> real" where
  "clamp val lo hi = max lo (min hi val)"

definition hypot :: "real \<Rightarrow> real \<Rightarrow> real" where
  "hypot a b = sqrt (a ^ 2 + b ^ 2)"

text \<open>The rounding of a real number to a double (IEEE 754 binary64, round to nearest, ties to
  even): a number of the binade \<open>2 ^ e \<le> \<bar>x\<bar> < 2 ^ (e + 1)\<close> is rounded to a multiple of
  \<open>2 ^ (e - 52)\<close>. The exponent is not bounded, so there is neither overflow to infinity nor
  a subnormal range. A float operation \<open>a + b\<close> of the code is \<open>fl (a + b)\<close>.\<close>

definition round_half_even :: "real \<Rightarrow> int" where
  "round_half_even y =
     (let f = \<lfloor>y\<rfloor>
      in if y - of_int f < 1 / 2 then f
         else if y - of_int f > 1 / 2 then f + 1
         else if even f then f else f + 1)"

definition fl :: "real \<Rightarrow> real" where
  "fl x =
     (if x = 0 then 0
      else
        let e = \<lfloor>log 2 \<bar>x\<bar>\<rfloor>;
            ulp = 2 powr (of_int e - 52)
        in of_int (round_half_even (x / ulp)) * ulp)"

text \<open>Python's \<open>x % y\<close> on floats (the result has the sign of \<open>y\<close>); every divisor in this
  module is a positive constant.\<close>

definition py_mod :: "real \<Rightarrow> real \<Rightarrow> real" where
  "py_mod a b = a - of_int \<lfloor>a / b\<rfloor> * b"

text \<open>Python's \<open>int(x)\<close> on a float truncates towards zero.\<close>

definition py_int :: "real \<Rightarrow> int" where
  "py_int a = (if 0 \<le> a then \<lfloor>a\<rfloor> else \<lceil>a\<rceil>)"

definition normalize_vec :: "Vector \<Rightarrow> Vector" where
  "normalize_vec vec =
     (let (vx, vy) = vec; mag = hypot vx vy
      in if mag = 0 then (0, 0) else (vx / mag, vy / mag))"

definition angle_lerp :: "real \<Rightarrow> real \<Rightarrow> real \<Rightarrow> real" where
  "angle_lerp a b t =
     (let two_pi = 2 * pi;
          aa = a * two_pi;
          bb = b * two_pi;
          delta = py_mod (bb - aa + pi) (2 * pi) - pi;
          out = py_mod (aa + delta * clamp t 0 1) two_pi
      in out / two_pi)"

subsection \<open>The standard library's \<open>colorsys\<close>\<close>

text \<open>The two conversions are not code of the repository; they are embedded from the
  source of CPython's \<open>colorsys\<close> module, which \<open>logic.py\<close> imports.\<close>

text \<open>\<open>rgb_to_hsv\<close> divides by \<open>maxc\<close>; that is a \<open>ZeroDivisionError\<close> when the largest
  channel is zero and the channels are not all equal (some channel is negative).\<close>

definition rgb_to_hsv :: "real \<Rightarrow> real \<Rightarrow> real \<Rightarrow> error + (real \<times> real \<times> real)" where
  "rgb_to_hsv r g b =
     (let maxc = max (max r g) b;
          minc = min (min r g) b;
          rangec = maxc - minc;
          v = maxc
      in if minc = maxc then Inr (0, 0, v)
         else if maxc = 0 then Inl ZeroDivisionError
         else
           let s = rangec / maxc;
               rc = (maxc - r) / rangec;
               gc = (maxc - g) / rangec;
               bc = (maxc - b) / rangec;
               h = (if r = maxc then bc - gc
                    else if g = maxc then 2 + rc - bc
                    else 4 + gc - rc)
           in Inr (py_mod (h / 6) 1, s, v))"

text \<open>\<open>hsv_to_rgb\<close> falls off its end (returning \<open>None\<close>, which the caller cannot unpack) when
  \<open>i % 6\<close> is none of 0..5; lemma \<open>hsv_to_rgb_total\<close> below shows that this never happens.\<close>

definition hsv_to_rgb :: "real \<Rightarrow> real \<Rightarrow> real \<Rightarrow> error + ColorRGB" where
  "hsv_to_rgb h s v =
     (if s = 0 then Inr (v, v, v)
      else
        let i = py_int (h * 6);
            f = h * 6 - of_int i;
            p = v * (1 - s);
            q = v * (1 - s * f);
            t = v * (1 - s * (1 - f));
            i6 = i mod 6
        in if i6 = 0 then Inr (v, t, p)
           else if i6 = 1 then Inr (q, v, p)
           else if i6 = 2 then Inr (p, v, t)
           else if i6 = 3 then Inr (p, q, v)
           else if i6 = 4 then Inr (t, p, v)
           else if i6 = 5 then Inr (v, p, q)
           else Inl TypeError)"

subsection \<open>Colour mixing\<close>

definition mix_color_towards :: "ColorRGB \<Rightarrow> ColorRGB \<Rightarrow> real \<Rightarrow> error + ColorRGB" where
  "mix_color_towards src_rgb dst_rgb t =
     (let (sr, sg, sb) = src_rgb; (dr, dg, db) = dst_rgb
      in case rgb_to_hsv sr sg sb of
           Inl e \<Rightarrow> Inl e
         | Inr (sh, ss, sv) \<Rightarrow>
             (case rgb_to_hsv dr dg db of
                Inl e \<Rightarrow> Inl e
              | Inr (dh, ds, dv) \<Rightarrow>
                  let h = angle_lerp sh dh t;
                      s_target = max ss ds;
                      s = clamp ((1 - t) * ss + t * s_target) (35 / 100) 1;
                      v = clamp ((1 - t) * sv + t * dv) 0 (92 / 100)
                  in (case hsv_to_rgb h s v of
                        Inl e \<Rightarrow> Inl e
                      | Inr (r, g, b) \<Rightarrow> Inr (clamp r 0 1, clamp g 0 1, clamp b 0 1))))"

subsection \<open>The world\<close>

type_synonym ball_dict = "(string \<times> Ball) list"

record GameLogic =
  world_width :: real
  world_height :: real
  boundary_bounce :: bool
  linear_damping_per_second :: real
  max_color_mix_factor_per_second :: real
  gravity :: Vector
  delete_zone :: Rect
  balls :: ball_dict
  inventory :: ball_dict
  suction :: Suction

text \<open>\<open>GameLogic.__init__\<close>; an absent \<open>delete_zone\<close> argument is \<open>None\<close>.\<close>

definition init :: "real \<Rightarrow> real \<Rightarrow> Rect option \<Rightarrow> bool \<Rightarrow> real \<Rightarrow> real \<Rightarrow> Vector \<Rightarrow> GameLogic" where
  "init w h dz bounce damping mixf grav =
     \<lparr>world_width = w, world_height = h, boundary_bounce = bounce,
      linear_damping_per_second = clamp damping 0 5,
      max_color_mix_factor_per_second = clamp mixf 0 5,
      gravity = grav,
      delete_zone =
        (case dz of
           Some r \<Rightarrow> r
         | None \<Rightarrow> \<lparr>rect_x = w - 120, rect_y = h - 120, rect_width = 120, rect_height = 120\<rparr>),
      balls = [], inventory = [], suction = new_Suction\<rparr>"

definition create_default_logic :: "int \<times> int \<Rightarrow> GameLogic" where
  "create_default_logic world_size =
     (let (w, h) = world_size
      in init (of_int w) (of_int h) None True (15 / 100) (85 / 100) (0, 0))"

subsection \<open>World and inventory management\<close>

text \<open>\<open>add_ball\<close>: \<open>ball_id or uuid.uuid4().hex\<close> takes the generated id when the argument is
  \<open>None\<close> or the empty string. The generated id is the parameter \<open>uuid_hex\<close>.\<close>

definition add_ball ::
  "GameLogic \<Rightarrow> Vector \<Rightarrow> Vector \<Rightarrow> real \<Rightarrow> ColorRGB \<Rightarrow> string option \<Rightarrow> string \<Rightarrow> GameLogic \<times> string"
where
  "add_ball g pos vel r col bid_arg uuid_hex =
     (let bid = (case bid_arg of None \<Rightarrow> uuid_hex | Some s \<Rightarrow> if s = [] then uuid_hex else s);
          ball = new_Ball bid pos vel r col
      in (g\<lparr>balls := AList.update bid ball (balls g)\<rparr>, bid))"

definition remove_ball :: "GameLogic \<Rightarrow> string \<Rightarrow> GameLogic \<times> bool" where
  "remove_ball g bid =
     (g\<lparr>balls := AList.delete bid (balls g)\<rparr>, map_of (balls g) bid \<noteq> None)"

definition get_balls_snapshot :: "GameLogic \<Rightarrow> Ball list" where
  "get_balls_snapshot g = map snd (balls g)"

definition get_inventory_ids :: "GameLogic \<Rightarrow> string list" where
  "get_inventory_ids g = map fst (inventory g)"

definition set_delete_zone :: "GameLogic \<Rightarrow> Rect \<Rightarrow> GameLogic" where
  "set_delete_zone g rect = g\<lparr>delete_zone := rect\<rparr>"

subsection \<open>Suction control\<close>

definition start_suction ::
  "GameLogic \<Rightarrow> Vector \<Rightarrow> real option \<Rightarrow> real option \<Rightarrow> real option \<Rightarrow> GameLogic"
where
  "start_suction g pos r_arg strength_arg capture_arg =
     (let s0 = (suction g)\<lparr>is_active := True, s_position := pos\<rparr>;
          s1 = (case r_arg of None \<Rightarrow> s0 | Some r \<Rightarrow> s0\<lparr>s_radius := r\<rparr>);
          s2 = (case strength_arg of None \<Rightarrow> s1 | Some st \<Rightarrow> s1\<lparr>strength := st\<rparr>);
          s3 = (case capture_arg of None \<Rightarrow> s2 | Some c \<Rightarrow> s2\<lparr>capture_radius := c\<rparr>)
      in g\<lparr>suction := s3\<rparr>)"

definition update_suction :: "GameLogic \<Rightarrow> Vector \<Rightarrow> GameLogic" where
  "update_suction g pos =
     (if \<not> is_active (suction g) then g
      else g\<lparr>suction := (suction g)\<lparr>s_position := pos\<rparr>\<rparr>)"

definition stop_suction :: "GameLogic \<Rightarrow> GameLogic" where
  "stop_suction g = g\<lparr>suction := (suction g)\<lparr>is_active := False\<rparr>\<rparr>"

subsection \<open>Spitting\<close>

definition spit_next :: "GameLogic \<Rightarrow> Vector \<Rightarrow> Vector \<Rightarrow> real \<Rightarrow> GameLogic \<times> string option" where
  "spit_next g pos direction speed =
     (case inventory g of
        [] \<Rightarrow> (g, None)
      | (bid, ball) # _ \<Rightarrow>
          let (dx, dy) = normalize_vec direction;
              ball' = ball\<lparr>position := pos, velocity := (dx * speed, dy * speed)\<rparr>
          in (g\<lparr>inventory := AList.delete bid (inventory g),
                balls := AList.update bid ball' (balls g)\<rparr>, Some bid))"

definition spit_specific :: "GameLogic \<Rightarrow> string \<Rightarrow> Vector \<Rightarrow> Vector \<Rightarrow> real \<Rightarrow> GameLogic \<times> bool" where
  "spit_specific g bid pos direction speed =
     (case map_of (inventory g) bid of
        None \<Rightarrow> (g, False)
      | Some ball \<Rightarrow>
          let (dx, dy) = normalize_vec direction;
              ball' = ball\<lparr>position := pos, velocity := (dx * speed, dy * speed)\<rparr>
          in (g\<lparr>inventory := AList.delete bid (inventory g),
                balls := AList.update bid ball' (balls g)\<rparr>, True))"

subsection \<open>The simulation step\<close>

text \<open>The body of the suction loop (lines 242-257).\<close>

definition suction_ball :: "Suction \<Rightarrow> real \<Rightarrow> Ball \<Rightarrow> Ball" where
  "suction_ball s dt ball =
     (let (sx, sy) = s_position s;
          sr = s_radius s;
          (bx, by) = position ball;
          to_sx = sx - bx;
          to_sy = sy - by;
          dist = hypot to_sx to_sy
      in if dist \<le> sr \<and> dist > 1 / 1000000 then
           let pull_dir = (to_sx / dist, to_sy / dist);
               falloff = 1 - dist / sr;
               accel_mag = strength s * falloff ^ 2 / mass ball;
               ax = fst pull_dir * accel_mag;
               ay = snd pull_dir * accel_mag;
               (vx, vy) = velocity ball
           in ball\<lparr>velocity := (vx + ax * dt, vy + ay * dt)\<rparr>
         else ball)"

definition suction_phase :: "Suction \<Rightarrow> real \<Rightarrow> ball_dict \<Rightarrow> ball_dict" where
  "suction_phase s dt bs =
     (if is_active s then map (\<lambda>(k, ball). (k, suction_ball s dt ball)) bs else bs)"

text \<open>The boundary handling of one ball (lines 268-292): the position and velocity after
  integration go in, the ones stored in the ball come out. The bounce tests compare the
  rounded float results \<open>px - radius\<close> and \<open>px + radius\<close>, and the right and bottom edges store
  the rounded \<open>width - radius\<close> and \<open>height - radius\<close>.\<close>

definition boundary :: "GameLogic \<Rightarrow> real \<Rightarrow> Vector \<Rightarrow> Vector \<Rightarrow> Vector \<times> Vector" where
  "boundary g r p v =
     (let (px, py) = p; (vx, vy) = v
      in if boundary_bounce g then
           let (px1, vx1) =
                 (if fl (px - r) < 0 then (r, \<bar>vx\<bar>)
                  else if fl (px + r) > world_width g then (fl (world_width g - r), - \<bar>vx\<bar>)
                  else (px, vx));
               (py1, vy1) =
                 (if fl (py - r) < 0 then (r, \<bar>vy\<bar>)
                  else if fl (py + r) > world_height g then (fl (world_height g - r), - \<bar>vy\<bar>)
                  else (py, vy))
           in ((px1, py1), (vx1, vy1))
         else
           let px1 =
                 (if px < - r then world_width g + r
                  else if px > world_width g + r then - r
                  else px);
               py1 =
                 (if py < - r then world_height g + r
                  else if py > world_height g + r then - r
                  else py)
           in ((px1, py1), (vx, vy)))"

text \<open>The body of the integration loop (lines 260-295): the velocity and position after
  gravity, damping and motion (lines 261-266), the boundary handling, and the store into the
  ball (lines 294-295).\<close>

definition integrate_motion :: "GameLogic \<Rightarrow> real \<Rightarrow> real \<Rightarrow> Ball \<Rightarrow> Vector \<times> Vector" where
  "integrate_motion g dt damping ball =
     (let (gx, gy) = gravity g;
          vx = (fst (velocity ball) + gx * dt) * damping;
          vy = (snd (velocity ball) + gy * dt) * damping;
          px = fst (position ball) + vx * dt;
          py = snd (position ball) + vy * dt
      in ((px, py), (vx, vy)))"

definition integrate_ball :: "GameLogic \<Rightarrow> real \<Rightarrow> real \<Rightarrow> Ball \<Rightarrow> Ball" where
  "integrate_ball g dt damping ball =
     (let (p, v) = integrate_motion g dt damping ball;
          (p', v') = boundary g (radius ball) p v
      in ball\<lparr>position := p', velocity := v'\<rparr>)"

definition integrate_phase :: "GameLogic \<Rightarrow> real \<Rightarrow> real \<Rightarrow> ball_dict \<Rightarrow> ball_dict" where
  "integrate_phase g dt damping bs = map (\<lambda>(k, ball). (k, integrate_ball g dt damping ball)) bs"

text \<open>Capture (lines 298-312): the ids are collected first, then moved one by one.\<close>

definition capture_cond :: "Suction \<Rightarrow> Ball \<Rightarrow> bool" where
  "capture_cond s ball =
     (let (sx, sy) = s_position s; (bx, by) = position ball
      in hypot (bx - sx) (by - sy) \<le> max (capture_radius s) (radius ball * (8 / 10)))"

definition to_capture :: "Suction \<Rightarrow> ball_dict \<Rightarrow> string list" where
  "to_capture s bs = map ball_id (filter (capture_cond s) (map snd bs))"

fun capture_loop ::
  "string list \<Rightarrow> ball_dict \<times> ball_dict \<times> string list \<Rightarrow> ball_dict \<times> ball_dict \<times> string list"
where
  "capture_loop [] st = st"
| "capture_loop (bid # rest) (bs, invt, captured) =
     (case map_of bs bid of
        None \<Rightarrow> capture_loop rest (bs, invt, captured)
      | Some ball \<Rightarrow>
          capture_loop rest (AList.delete bid bs, AList.update bid ball invt, captured @ [bid]))"

definition capture_phase ::
  "Suction \<Rightarrow> ball_dict \<Rightarrow> ball_dict \<Rightarrow> ball_dict \<times> ball_dict \<times> string list"
where
  "capture_phase s bs invt =
     (if is_active s then capture_loop (to_capture s bs) (bs, invt, []) else (bs, invt, []))"

text \<open>Colour mixing (lines 315-325). \<open>itertools.combinations(balls_list, 2)\<close> yields the pairs
  in index order: the first ball with every later one, then the second with every later one,
  and so on. The list holds the ball objects themselves, so a colour written for one pair is
  the colour read by the next. \<open>mix_one\<close> runs the pairs of one ball \<open>a\<close> with the balls after
  it; \<open>mix_all\<close> runs all pairs. The last component is the exception that ended the loop,
  if any; the balls returned are the ones as mutated up to then.\<close>

definition overlap :: "Ball \<Rightarrow> Ball \<Rightarrow> bool" where
  "overlap a b =
     (let (ax, ay) = position a; (bx, by) = position b
      in hypot (ax - bx) (ay - by) \<le> radius a + radius b)"

fun mix_one ::
  "real \<Rightarrow> Ball \<Rightarrow> Ball list \<Rightarrow> Ball \<times> Ball list \<times> (string \<times> string) list \<times> error option"
where
  "mix_one mix_t a [] = (a, [], [], None)"
| "mix_one mix_t a (b # bs) =
     (if overlap a b then
        (case mix_color_towards (color_rgb a) (color_rgb b) mix_t of
           Inl e \<Rightarrow> (a, b # bs, [], Some e)
         | Inr ca \<Rightarrow>
             let a' = a\<lparr>color_rgb := ca\<rparr>
             in (case mix_color_towards (color_rgb b) (color_rgb a') mix_t of
                   Inl e \<Rightarrow> (a', b # bs, [], Some e)
                 | Inr cb \<Rightarrow>
                     let b' = b\<lparr>color_rgb := cb\<rparr>;
                         (a'', bs', pairs, err) = mix_one mix_t a' bs
                     in (a'', b' # bs', (ball_id a, ball_id b) # pairs, err)))
      else
        let (a'', bs', pairs, err) = mix_one mix_t a bs
        in (a'', b # bs', pairs, err))"

function mix_all ::
  "real \<Rightarrow> Ball list \<Rightarrow> Ball list \<times> (string \<times> string) list \<times> error option"
where
  "mix_all mix_t [] = ([], [], None)"
| "mix_all mix_t (a # bs) =
     (case mix_one mix_t a bs of
        (a', bs', pairs, Some e) \<Rightarrow> (a' # bs', pairs, Some e)
      | (a', bs', pairs, None) \<Rightarrow>
          let (bs'', pairs', err) = mix_all mix_t bs'
          in (a' # bs'', pairs @ pairs', err))"
  by pat_completeness auto
termination
proof -
  have len: "mix_one t c cs = (c', cs', ps, e) \<Longrightarrow> length cs' = length cs"
    for t c cs c' cs' ps e
  proof (induction cs arbitrary: c c' cs' ps e)
    case Nil
    then show ?case by simp
  next
    case (Cons b cs)
    show ?case
    proof (cases "overlap c b")
      case False
      obtain c1 cs1 ps1 e1 where m: "mix_one t c cs = (c1, cs1, ps1, e1)"
        by (metis prod_cases4)
      with Cons.prems False have "cs' = b # cs1" by simp
      with Cons.IH [OF m] show ?thesis by simp
    next
      case True
      show ?thesis
      proof (cases "mix_color_towards (color_rgb c) (color_rgb b) t")
        case (Inl e1)
        with Cons.prems True show ?thesis by simp
      next
        case (Inr ca)
        show ?thesis
        proof (cases "mix_color_towards (color_rgb b) ca t")
          case (Inl e2)
          with Cons.prems True Inr show ?thesis by simp
        next
          case cb: (Inr cb)
          obtain c1 cs1 ps1 e1 where
            m: "mix_one t (c\<lparr>color_rgb := ca\<rparr>) cs = (c1, cs1, ps1, e1)"
            by (metis prod_cases4)
          with Cons.prems True Inr cb have "cs' = b\<lparr>color_rgb := cb\<rparr> # cs1" by simp
          with Cons.IH [OF m] show ?thesis by simp
        qed
      qed
    qed
  qed
  show ?thesis
    apply (relation "measure (\<lambda>(mix_t, bs). length bs)")
     apply simp
    apply (auto dest: len [OF sym])
    done
qed

definition mix_phase ::
  "real \<Rightarrow> ball_dict \<Rightarrow> ball_dict \<times> (string \<times> string) list \<times> error option"
where
  "mix_phase mix_t bs =
     (if mix_t > 0 then
        let (vals, pairs, err) = mix_all mix_t (map snd bs)
        in (zip (map fst bs) vals, pairs, err)
      else (bs, [], None))"

text \<open>The delete zone (lines 328-334).\<close>

definition to_delete :: "Rect \<Rightarrow> ball_dict \<Rightarrow> string list" where
  "to_delete zone bs = map ball_id (filter (\<lambda>ball. contains_point zone (position ball)) (map snd bs))"

fun delete_loop :: "string list \<Rightarrow> ball_dict \<times> string list \<Rightarrow> ball_dict \<times> string list" where
  "delete_loop [] st = st"
| "delete_loop (bid # rest) (bs, deleted) =
     (if map_of bs bid \<noteq> None then delete_loop rest (AList.delete bid bs, deleted @ [bid])
      else delete_loop rest (bs, deleted))"

definition delete_phase :: "Rect \<Rightarrow> ball_dict \<Rightarrow> ball_dict \<times> string list" where
  "delete_phase zone bs = delete_loop (to_delete zone bs) (bs, [])"

text \<open>The balls after the suction and integration loops, that is, at their post-motion
  positions.\<close>

definition moved_balls :: "GameLogic \<Rightarrow> real \<Rightarrow> ball_dict" where
  "moved_balls g dt =
     integrate_phase g dt (exp (- linear_damping_per_second g * dt))
       (suction_phase (suction g) dt (balls g))"

text \<open>\<open>GameLogic.step\<close>. The result is the world as the call leaves it, with the
  \<open>StepResult\<close> returned or the exception raised (by the colour mixing, after the balls have
  moved and been captured).\<close>

definition step :: "GameLogic \<Rightarrow> real \<Rightarrow> GameLogic \<times> (error + StepResult)" where
  "step g dt_arg =
     (let dt = max 0 dt_arg
      in if dt = 0 then
           (g, Inr \<lparr>time_advanced_s = dt, mixed_pairs = [], deleted_ball_ids = [],
                    captured_ball_ids = [], released_ball_ids = []\<rparr>)
         else
           let bs2 = moved_balls g dt;
               (bs3, inv3, captured) = capture_phase (suction g) bs2 (inventory g);
               mix_t = clamp (max_color_mix_factor_per_second g * dt) 0 (75 / 100);
               (bs4, pairs, err) = mix_phase mix_t bs3
           in case err of
                Some e \<Rightarrow> (g\<lparr>balls := bs4, inventory := inv3\<rparr>, Inl e)
              | None \<Rightarrow>
                  let (bs5, deleted) = delete_phase (delete_zone g) bs4
                  in (g\<lparr>balls := bs5, inventory := inv3\<rparr>,
                      Inr \<lparr>time_advanced_s = dt, mixed_pairs = pairs,
                           deleted_ball_ids = deleted, captured_ball_ids = captured,
                           released_ball_ids = []\<rparr>))"

subsection \<open>Predicates and runs of the statements\<close>

text \<open>\<open>recolored b b'\<close>: the two balls agree on everything but the colour.\<close>

definition recolored :: "Ball \<Rightarrow> Ball \<Rightarrow> bool" where
  "recolored b b' =
     (ball_id b' = ball_id b \<and> position b' = position b \<and> velocity b' = velocity b
      \<and> radius b' = radius b \<and> mass b' = mass b)"

text \<open>Every ball of a dict of the world is stored under its own id, once: what \<open>add_ball\<close>,
  the capture and the spits establish and keep.\<close>

definition wf_dict :: "ball_dict \<Rightarrow> bool" where
  "wf_dict d = (distinct (map fst d) \<and> (\<forall>(k, b) \<in> set d. ball_id b = k))"

text \<open>Both dicts of the world are well-formed.\<close>

definition wf_world :: "GameLogic \<Rightarrow> bool" where
  "wf_world g = (wf_dict (balls g) \<and> wf_dict (inventory g))"

text \<open>A colour with its three channels in [0, 1].\<close>

definition valid_color :: "ColorRGB \<Rightarrow> bool" where
  "valid_color c = (let (r, g, b) = c in 0 \<le> r \<and> r \<le> 1 \<and> 0 \<le> g \<and> g \<le> 1 \<and> 0 \<le> b \<and> b \<le> 1)"


text \<open>The calls a client can make on a \<open>GameLogic\<close> object that change it, a run of such
  calls, and the same run keeping the set of ids that are alive: created by \<open>add_ball\<close> and
  since then neither removed by a successful \<open>remove_ball\<close> nor reported deleted by a
  step.\<close>

datatype op =
    AddBall Vector Vector real ColorRGB "string option" string
  | RemoveBall string
  | SetDeleteZone Rect
  | StartSuction Vector "real option" "real option" "real option"
  | UpdateSuction Vector
  | StopSuction
  | SpitNext Vector Vector real
  | SpitSpecific string Vector Vector real
  | Step real

fun apply_op :: "GameLogic \<Rightarrow> op \<Rightarrow> GameLogic" where
  "apply_op g (AddBall pos vel r col bid_arg uuid_hex) = fst (add_ball g pos vel r col bid_arg uuid_hex)"
| "apply_op g (RemoveBall bid) = fst (remove_ball g bid)"
| "apply_op g (SetDeleteZone rect) = set_delete_zone g rect"
| "apply_op g (StartSuction pos r st c) = start_suction g pos r st c"
| "apply_op g (UpdateSuction pos) = update_suction g pos"
| "apply_op g StopSuction = stop_suction g"
| "apply_op g (SpitNext pos direction speed) = fst (spit_next g pos direction speed)"
| "apply_op g (SpitSpecific bid pos direction speed) = fst (spit_specific g bid pos direction speed)"
| "apply_op g (Step dt) = fst (step g dt)"

fun alive_after :: "GameLogic \<Rightarrow> op \<Rightarrow> string set \<Rightarrow> string set" where
  "alive_after g (AddBall pos vel r col bid_arg uuid_hex) alive =
     insert (snd (add_ball g pos vel r col bid_arg uuid_hex)) alive"
| "alive_after g (RemoveBall bid) alive = (if snd (remove_ball g bid) then alive - {bid} else alive)"
| "alive_after g (Step dt) alive =
     (case snd (step g dt) of Inr res \<Rightarrow> alive - set (deleted_ball_ids res) | Inl e \<Rightarrow> alive)"
| "alive_after g other alive = alive"

fun run :: "GameLogic \<times> string set \<Rightarrow> op list \<Rightarrow> GameLogic \<times> string set" where
  "run (g, alive) [] = (g, alive)"
| "run (g, alive) (c # cs) = run (apply_op g c, alive_after g c alive) cs"

text \<open>The ids of the active set and of the inventory are disjoint, and together they are
  the ids alive.\<close>

definition exactly_one :: "GameLogic \<times> string set \<Rightarrow> bool" where
  "exactly_one st =
     (let (g, alive) = st
      in fst ` set (balls g) \<inter> fst ` set (inventory g) = {}
         \<and> fst ` set (balls g) \<union> fst ` set (inventory g) = alive)"

text \<open>No \<open>add_ball\<close> of the run uses an id that the inventory holds at the time of the
  call.\<close>

fun adds_fresh :: "GameLogic \<Rightarrow> op list \<Rightarrow> bool" where
  "adds_fresh g [] = True"
| "adds_fresh g (c # cs) =
     ((case c of
         AddBall pos vel r col bid_arg uuid_hex \<Rightarrow>
           snd (add_ball g pos vel r col bid_arg uuid_hex) \<notin> fst ` set (inventory g)
       | _ \<Rightarrow> True)
      \<and> adds_fresh (apply_op g c) cs)"

subsection \<open>Concrete worlds\<close>

text \<open>A 100 by 100 world without damping or gravity, with the default delete zone (the
  square from (-20, -20) to (100, 100)), and the same world holding one ball.\<close>

definition demo_world :: GameLogic where
  "demo_world = init 100 100 None True 0 (1 / 2) (0, 0)"

definition one_ball_world :: GameLogic where
  "one_ball_world = fst (add_ball demo_world (50, 50) (0, 0) 5 (1, 0, 0) (Some ''a'') ''u'')"

text \<open>A delete zone away from the world, and two worlds with one moving ball near the right
  edge: one that bounces and one that wraps.\<close>

definition far_zone :: Rect where
  "far_zone = \<lparr>rect_x = 1000, rect_y = 1000, rect_width = 1, rect_height = 1\<rparr>"





text \<open>A world with one active ball and three captured ones.\<close>

definition stock_world :: GameLogic where
  "stock_world =
     demo_world
       \<lparr>balls := [(''d'', new_Ball ''d'' (10, 10) (0, 0) 5 (0, 0, 1))],
        inventory :=
          [(''a'', new_Ball ''a'' (20, 20) (1, 1) 5 (1, 0, 0)),
           (''b'', new_Ball ''b'' (30, 30) (2, 2) 6 (0, 1, 0)),
           (''c'', new_Ball ''c'' (40, 40) (3, 3) 7 (1, 1, 0))]\<rparr>"


text \<open>A world whose only active ball lies at the suction point and inside the delete
  zone.\<close>

definition mouth_world :: GameLogic where
  "mouth_world =
     demo_world
       \<lparr>balls := [(''x'', new_Ball ''x'' (50, 50) (0, 0) 5 (0, 0, 1))],
        suction := new_Suction\<lparr>is_active := True, s_position := (50, 50)\<rparr>\<rparr>"

text \<open>A world with two overlapping balls of different shades of red, no motion, and a mix
  factor of 1/2 per second.\<close>

definition mix_world :: GameLogic where
  "mix_world =
     (init 100 100 (Some far_zone) True 0 (1 / 2) (0, 0))
       \<lparr>balls := [(''a'', new_Ball ''a'' (50, 50) (0, 0) 10 (1 / 2, 0, 0)),
                  (''b'', new_Ball ''b'' (53, 54) (0, 0) 10 (1 / 4, 0, 0))]\<rparr>"

text \<open>The same world with the two balls added in the other order.\<close>

definition mix_world_swapped :: GameLogic where
  "mix_world_swapped =
     (init 100 100 (Some far_zone) True 0 (1 / 2) (0, 0))
       \<lparr>balls := [(''b'', new_Ball ''b'' (53, 54) (0, 0) 10 (1 / 4, 0, 0)),
                  (''a'', new_Ball ''a'' (50, 50) (0, 0) 10 (1 / 2, 0, 0))]\<rparr>"

text \<open>Add ball \<open>x\<close>, capture it, add a ball \<open>x\<close> again.\<close>

definition readd_ops :: "op list" where
  "readd_ops =
     [AddBall (50, 50) (0, 0) 5 (0, 0, 1) (Some ''x'') ''u'',
      StartSuction (50, 50) None None None,
      Step 1,
      AddBall (10, 10) (0, 0) 5 (1, 0, 0) (Some ''x'') ''u'']"

text \<open>Add ball \<open>x\<close>, capture it, add a ball \<open>y\<close>, release \<open>x\<close>.\<close>

definition fresh_ops :: "op list" where
  "fresh_ops =
     [AddBall (50, 50) (0, 0) 5 (0, 0, 1) (Some ''x'') ''u'',
      StartSuction (50, 50) None None None,
      Step 1,
      AddBall (10, 10) (0, 0) 5 (1, 0, 0) (Some ''y'') ''u'',
      SpitNext (1, 2) (0, 0) 10]"

section \<open>Properties\<close>

subsection \<open>Rounding to a double\<close>

lemma round_half_even_bounds: "\<lfloor>y\<rfloor> \<le> round_half_even y \<and> round_half_even y \<le> \<lfloor>y\<rfloor> + 1"
  by (simp add: round_half_even_def Let_def)

lemma round_half_even_of_int: "round_half_even (of_int m) = m"
  by (simp add: round_half_even_def)

lemma binade:
  assumes "x \<noteq> 0"
  shows "2 powr (of_int \<lfloor>log 2 \<bar>x\<bar>\<rfloor>) \<le> \<bar>x\<bar> \<and> \<bar>x\<bar> < 2 powr (of_int \<lfloor>log 2 \<bar>x\<bar>\<rfloor> + 1)"
proof -
  from assms have p: "0 < \<bar>x\<bar>" by simp
  have "2 powr (of_int \<lfloor>log 2 \<bar>x\<bar>\<rfloor>) \<le> 2 powr (log 2 \<bar>x\<bar>)"
    by (intro powr_mono) simp_all
  moreover have "2 powr (log 2 \<bar>x\<bar>) < 2 powr (of_int \<lfloor>log 2 \<bar>x\<bar>\<rfloor> + 1)"
    by (intro powr_less_mono) simp_all
  ultimately show ?thesis
    using p by simp
qed

lemma floor_log_unique:
  assumes "2 powr (of_int e) \<le> \<bar>x\<bar>" and "\<bar>x\<bar> < 2 powr (of_int e + 1)"
  shows "\<lfloor>log 2 \<bar>x\<bar>\<rfloor> = e"
proof -
  have p: "0 < \<bar>x\<bar>"
    using assms(1) powr_gt_zero [of 2 "of_int e"] by linarith
  have "of_int e \<le> log 2 \<bar>x\<bar>"
    using assms(1) p by (simp add: le_log_iff)
  moreover have "log 2 \<bar>x\<bar> < of_int e + 1"
    using assms(2) p by (simp add: log_less_iff)
  ultimately show ?thesis
    by linarith
qed

lemma scaled_range:
  fixes x :: real
  assumes "x \<noteq> 0"
  shows "0 < (2::real) powr (of_int \<lfloor>log 2 \<bar>x\<bar>\<rfloor> - 52)
       \<and> 2 ^ 52 \<le> \<bar>x\<bar> / 2 powr (of_int \<lfloor>log 2 \<bar>x\<bar>\<rfloor> - 52)
       \<and> \<bar>x\<bar> / 2 powr (of_int \<lfloor>log 2 \<bar>x\<bar>\<rfloor> - 52) < 2 ^ 53"
proof -
  let ?e = "of_int \<lfloor>log 2 \<bar>x\<bar>\<rfloor> :: real"
  define u :: real where "u = 2 powr (?e - 52)"
  have u: "u = 2 powr ?e / 2 ^ 52"
    unfolding u_def by (simp add: powr_diff)
  have u0: "0 < u" by (simp add: u_def)
  from binade [OF assms(1)] have b: "2 powr ?e \<le> \<bar>x\<bar>" "\<bar>x\<bar> < 2 powr ?e * 2"
    by (simp_all add: powr_add)
  have "2 ^ 52 * u = 2 powr ?e" by (simp add: u)
  with b have "2 ^ 52 * u \<le> \<bar>x\<bar>" "\<bar>x\<bar> < 2 ^ 53 * u"
    by simp_all
  with u0 have "0 < u \<and> 2 ^ 52 \<le> \<bar>x\<bar> / u \<and> \<bar>x\<bar> / u < 2 ^ 53"
    by (simp add: pos_le_divide_eq pos_divide_less_eq)
  then show ?thesis
    by (simp add: u_def)
qed

lemma fl_less_zero_iff: "fl x < 0 \<longleftrightarrow> x < 0"
proof (cases "x = 0")
  case True
  then show ?thesis by (simp add: fl_def)
next
  case False
  define u :: real where "u = 2 powr (of_int \<lfloor>log 2 \<bar>x\<bar>\<rfloor> - 52)"
  from scaled_range [OF False] have u: "0 < u" and r: "2 ^ 52 \<le> \<bar>x\<bar> / u"
    by (simp_all add: u_def)
  have f: "fl x = of_int (round_half_even (x / u)) * u"
    using False by (simp add: fl_def u_def Let_def)
  show ?thesis
  proof (cases "x < 0")
    case True
    with r u have "x / u \<le> - (2 ^ 52)"
      by (simp add: abs_if divide_simps split: if_splits)
    moreover have "(2::real) \<le> 2 ^ 52" by simp
    ultimately have "x / u \<le> - 2" by linarith
    then have "\<lfloor>x / u\<rfloor> \<le> - 2"
      by (simp add: floor_le_iff)
    with round_half_even_bounds [of "x / u"] have "round_half_even (x / u) < 0"
      by linarith
    with u True show ?thesis
      by (simp add: f mult_less_0_iff)
  next
    case False
    with \<open>x \<noteq> 0\<close> have "0 < x" by simp
    with r have "2 ^ 52 \<le> x / u"
      by (simp add: abs_if)
    moreover have "(1::real) \<le> 2 ^ 52" by simp
    ultimately have "1 \<le> x / u" by linarith
    then have "1 \<le> \<lfloor>x / u\<rfloor>"
      by (simp add: le_floor_iff)
    with round_half_even_bounds [of "x / u"] have "0 < round_half_even (x / u)"
      by linarith
    with u False show ?thesis
      by (simp add: f mult_less_0_iff not_less zero_le_mult_iff)
  qed
qed

lemma fl_unfold:
  fixes x :: real
  assumes "2 powr (of_int e) \<le> \<bar>x\<bar>" and "\<bar>x\<bar> < 2 powr (of_int e + 1)"
  shows "fl x = of_int (round_half_even (x / 2 powr (of_int e - 52))) * 2 powr (of_int e - 52)"
proof -
  have "x \<noteq> 0"
    using assms(1) powr_gt_zero [of 2 "of_int e"] by auto
  with floor_log_unique [OF assms] show ?thesis
    by (simp add: fl_def Let_def)
qed

lemma fl_of_int:
  assumes "\<bar>n\<bar> < 2 ^ 53"
  shows "fl (of_int n) = of_int n"
proof (cases "n = 0")
  case True
  then show ?thesis by (simp add: fl_def)
next
  case False
  define x :: real where "x = of_int n"
  define e where "e = \<lfloor>log 2 \<bar>x\<bar>\<rfloor>"
  have x0: "x \<noteq> 0" using False by (simp add: x_def)
  from binade [OF x0] have b: "2 powr (of_int e) \<le> \<bar>x\<bar>" "\<bar>x\<bar> < 2 powr (of_int e + 1)"
    by (simp_all add: e_def)
  have "1 \<le> \<bar>n\<bar>" using False by linarith
  then have "1 \<le> \<bar>x\<bar>" unfolding x_def by (metis of_int_1_le_iff of_int_abs)
  then have "0 \<le> log 2 \<bar>x\<bar>" by simp
  then have e0: "0 \<le> e" by (simp add: e_def)
  have "\<bar>x\<bar> < 2 ^ 53"
    using assms unfolding x_def by (metis of_int_abs of_int_less_numeral_power_cancel_iff)
  then have "log 2 \<bar>x\<bar> < 53"
    using x0 by (simp add: log_less_iff powr_realpow [symmetric])
  then have e52: "e \<le> 52" by (simp add: e_def floor_le_iff)
  define k where "k = nat (52 - e)"
  have k: "real_of_int e - 52 = - real k"
    using e52 by (simp add: k_def)
  have u: "(2::real) powr (of_int e - 52) = 1 / 2 ^ k"
    by (simp add: k powr_minus powr_realpow inverse_eq_divide)
  have "x / 2 powr (of_int e - 52) = of_int (n * 2 ^ k)"
    by (simp add: u x_def)
  then have "round_half_even (x / 2 powr (of_int e - 52)) = n * 2 ^ k"
    by (simp only: round_half_even_of_int)
  with fl_unfold [OF b] show ?thesis
    by (simp add: u x_def)
qed

lemma fl_numeral: "(numeral k :: int) < 2 ^ 53 \<Longrightarrow> fl (numeral k) = numeral k"
  using fl_of_int [of "numeral k"] by simp

lemma fl_one: "fl 1 = 1"
  using fl_of_int [of 1] by simp

lemma fl_zero: "fl 0 = 0"
  by (simp add: fl_def)










subsection \<open>Mass of a new ball\<close>

text \<open>Claim C7: a ball created by \<open>add_ball\<close> with radius \<open>r > 0\<close> is stored under the
  returned id with that radius and with mass \<open>max(1e-6, pi * r^2)\<close>.\<close>

theorem add_ball_mass:
  assumes "0 < r" and "add_ball g pos vel r col bid_arg uuid_hex = (g', bid)"
  shows "\<exists>ball. map_of (balls g') bid = Some ball \<and> radius ball = r
           \<and> mass ball = max (1 / 1000000) (pi * r ^ 2)"
  using assms by (auto simp: add_ball_def Let_def AList.update_conv' new_Ball_def)

text \<open>At radius \<open>1e-4\<close> the area is below the floor, and the mass is \<open>1e-6\<close>.\<close>

theorem add_ball_mass_witness:
  "(0::real) < 1 / 10000 \<and>
   (\<exists>ball. map_of (balls (fst (add_ball demo_world (5, 5) (0, 0) (1 / 10000) (1, 0, 0)
                 (Some ''a'') ''u''))) ''a'' = Some ball
      \<and> radius ball = 1 / 10000 \<and> mass ball = 1 / 1000000)"
proof -
  have "pi * (1 / 10000) ^ 2 \<le> (1 / 1000000 :: real)"
    using pi_less_4 by (simp add: power2_eq_square)
  then have m: "max (1 / 1000000) (pi * (1 / 10000) ^ 2) = (1 / 1000000 :: real)"
    by (simp add: max_def)
  have e: "add_ball demo_world (5, 5) (0, 0) (1 / 10000) (1, 0, 0) (Some ''a'') ''u''
      = (fst (add_ball demo_world (5, 5) (0, 0) (1 / 10000) (1, 0, 0) (Some ''a'') ''u''), ''a'')"
    by (simp add: add_ball_def Let_def)
  show ?thesis
    using add_ball_mass [OF _ e] m by simp
qed

subsection \<open>A step of no duration\<close>

text \<open>Claim C3: \<open>step(dt)\<close> with \<open>dt \<le> 0\<close> returns a result with \<open>time_advanced_s = 0\<close> and
  four empty lists, and leaves the whole world (every ball of the active set and of the
  inventory, with its position, velocity and colour) as it was.\<close>

theorem step_nonpositive_dt:
  assumes "dt \<le> 0"
  shows "step g dt =
           (g, Inr \<lparr>time_advanced_s = 0, mixed_pairs = [], deleted_ball_ids = [],
                    captured_ball_ids = [], released_ball_ids = []\<rparr>)"
  using assms by (simp add: step_def max_def)

text \<open>The ball of \<open>one_ball_world\<close> lies inside the delete zone and stays.\<close>

theorem step_nonpositive_dt_witness:
  "(0::real) \<le> 0 \<and> (- 1::real) \<le> 0
   \<and> contains_point (delete_zone one_ball_world) (50, 50)
   \<and> map fst (balls one_ball_world) = [''a'']
   \<and> step one_ball_world 0 =
         (one_ball_world, Inr \<lparr>time_advanced_s = 0, mixed_pairs = [], deleted_ball_ids = [],
                    captured_ball_ids = [], released_ball_ids = []\<rparr>)
   \<and> step one_ball_world (- 1) =
         (one_ball_world, Inr \<lparr>time_advanced_s = 0, mixed_pairs = [], deleted_ball_ids = [],
                    captured_ball_ids = [], released_ball_ids = []\<rparr>)"
proof -
  have "contains_point (delete_zone one_ball_world) (50, 50)"
    by (simp add: one_ball_world_def demo_world_def add_ball_def init_def contains_point_def Let_def)
  moreover have "map fst (balls one_ball_world) = [''a'']"
    by (simp add: one_ball_world_def demo_world_def add_ball_def init_def Let_def)
  ultimately show ?thesis
    using step_nonpositive_dt [of 0 one_ball_world] step_nonpositive_dt [of "- 1" one_ball_world]
    by simp
qed

subsection \<open>What the phases of a step keep\<close>

lemma recolored_refl: "recolored b b"
  by (simp add: recolored_def)

lemma recolored_upd: "recolored b (b\<lparr>color_rgb := c\<rparr>)"
  by (simp add: recolored_def)

lemma recolored_trans: "recolored a b \<Longrightarrow> recolored b c \<Longrightarrow> recolored a c"
  by (simp add: recolored_def)

lemma recolored_list_refl: "list_all2 recolored bs bs"
  by (rule list_all2_refl) (rule recolored_refl)

lemma mix_one_recolored:
  "mix_one t a bs = (a', bs', ps, e) \<Longrightarrow> recolored a a' \<and> list_all2 recolored bs bs'"
proof (induction bs arbitrary: a a' bs' ps e)
  case Nil
  then show ?case by (simp add: recolored_refl)
next
  case (Cons b bs)
  show ?case
  proof (cases "overlap a b")
    case False
    obtain a1 bs1 ps1 e1 where m: "mix_one t a bs = (a1, bs1, ps1, e1)"
      using prod_cases4 by blast
    with Cons.prems False have "a' = a1" "bs' = b # bs1" by simp_all
    with Cons.IH [OF m] show ?thesis by (simp add: recolored_refl)
  next
    case True
    show ?thesis
    proof (cases "mix_color_towards (color_rgb a) (color_rgb b) t")
      case (Inl e1)
      with Cons.prems True have "a' = a" "bs' = b # bs" by simp_all
      then show ?thesis
        by (simp add: recolored_refl recolored_list_refl)
    next
      case (Inr ca)
      show ?thesis
      proof (cases "mix_color_towards (color_rgb b) ca t")
        case (Inl e2)
        with Cons.prems True Inr have "a' = a\<lparr>color_rgb := ca\<rparr>" "bs' = b # bs" by simp_all
        then show ?thesis
          by (simp add: recolored_refl recolored_upd recolored_list_refl)
      next
        case cb: (Inr cb)
        obtain a1 bs1 ps1 e1 where
          m: "mix_one t (a\<lparr>color_rgb := ca\<rparr>) bs = (a1, bs1, ps1, e1)"
          using prod_cases4 by blast
        with Cons.prems True Inr cb have eq: "a' = a1" "bs' = b\<lparr>color_rgb := cb\<rparr> # bs1"
          by simp_all
        from Cons.IH [OF m] have ih: "recolored (a\<lparr>color_rgb := ca\<rparr>) a1" "list_all2 recolored bs bs1"
          by simp_all
        have "recolored a a1"
          by (rule recolored_trans [OF recolored_upd ih(1)])
        with eq ih(2) show ?thesis
          by (simp add: recolored_upd)
      qed
    qed
  qed
qed

lemma mix_all_recolored:
  "mix_all t bs = (bs', ps, e) \<Longrightarrow> list_all2 recolored bs bs'"
proof (induction t bs arbitrary: bs' ps e rule: mix_all.induct)
  case (1 t)
  then show ?case by simp
next
  case (2 t a bs)
  obtain a1 bs1 ps1 e1 where m: "mix_one t a bs = (a1, bs1, ps1, e1)"
    using prod_cases4 by blast
  from mix_one_recolored [OF m] have r1: "recolored a a1" "list_all2 recolored bs bs1"
    by simp_all
  show ?case
  proof (cases e1)
    case (Some err)
    with "2.prems" m have "bs' = a1 # bs1" by simp
    with r1 show ?thesis by simp
  next
    case None
    obtain bs2 ps2 e2 where m2: "mix_all t bs1 = (bs2, ps2, e2)"
      using prod_cases3 by blast
    from "2.IH" [OF m [symmetric] refl refl None m2] have ih: "list_all2 recolored bs1 bs2" by simp
    have "list_all2 recolored bs bs2"
      by (rule list_all2_trans [OF recolored_trans r1(2) ih])
    moreover from "2.prems" m None m2 have "bs' = a1 # bs2" by simp
    ultimately show ?thesis
      using r1(1) by simp
  qed
qed

lemma delete_as_filter: "AList.delete k al = filter (\<lambda>p. fst p \<noteq> k) al"
  by (induction al) (auto simp: AList.delete_eq)

lemma map_of_eq_None_keys: "map_of al k = None \<longleftrightarrow> k \<notin> fst ` set al"
  by (simp add: map_of_eq_None_iff)

lemma capture_loop_balls:
  "capture_loop ids (bs, iv, cap) = (bs', iv', cap') \<Longrightarrow>
     bs' = filter (\<lambda>p. fst p \<notin> set ids) bs"
proof (induction ids arbitrary: bs iv cap)
  case Nil
  then show ?case by simp
next
  case (Cons k ids)
  show ?case
  proof (cases "map_of bs k")
    case None
    then have "k \<notin> fst ` set bs" by (simp add: map_of_eq_None_keys)
    then have "filter (\<lambda>p. fst p \<notin> set (k # ids)) bs = filter (\<lambda>p. fst p \<notin> set ids) bs"
      by (intro filter_cong) auto
    with Cons None show ?thesis by simp
  next
    case (Some ball)
    with Cons.prems have "capture_loop ids (AList.delete k bs, AList.update k ball iv, cap @ [k]) = (bs', iv', cap')"
      by simp
    from Cons.IH [OF this] show ?thesis
      by (simp add: delete_as_filter conj_commute)
  qed
qed

lemma capture_loop_captured:
  "capture_loop ids (bs, iv, cap) = (bs', iv', cap') \<Longrightarrow>
     set cap' = set cap \<union> (set ids \<inter> fst ` set bs)"
proof (induction ids arbitrary: bs iv cap)
  case Nil
  then show ?case by simp
next
  case (Cons k ids)
  show ?case
  proof (cases "map_of bs k")
    case None
    then have "k \<notin> fst ` set bs" by (simp add: map_of_eq_None_keys)
    with Cons None show ?thesis by auto
  next
    case (Some ball)
    then have k: "k \<in> fst ` set bs"
      by (metis map_of_eq_None_keys option.distinct(1))
    from Some Cons.prems have "capture_loop ids (AList.delete k bs, AList.update k ball iv, cap @ [k]) = (bs', iv', cap')"
      by simp
    from Cons.IH [OF this] have "set cap' = set (cap @ [k]) \<union> (set ids \<inter> fst ` set (AList.delete k bs))" .
    with k show ?thesis
      by (auto simp: delete_as_filter)
  qed
qed

lemma capture_loop_inventory_keys:
  "capture_loop ids (bs, iv, cap) = (bs', iv', cap') \<Longrightarrow>
     fst ` set iv' = fst ` set iv \<union> (set ids \<inter> fst ` set bs)"
proof (induction ids arbitrary: bs iv cap)
  case Nil
  then show ?case by simp
next
  case (Cons k ids)
  show ?case
  proof (cases "map_of bs k")
    case None
    then have "k \<notin> fst ` set bs" by (simp add: map_of_eq_None_keys)
    with Cons None show ?thesis by auto
  next
    case (Some ball)
    then have k: "k \<in> fst ` set bs"
      by (metis map_of_eq_None_keys option.distinct(1))
    from Some Cons.prems have "capture_loop ids (AList.delete k bs, AList.update k ball iv, cap @ [k]) = (bs', iv', cap')"
      by simp
    from Cons.IH [OF this] have "fst ` set iv' = fst ` set (AList.update k ball iv) \<union> (set ids \<inter> fst ` set (AList.delete k bs))" .
    with k show ?thesis
      by (auto simp: delete_as_filter AList.dom_update)
  qed
qed

lemma delete_loop_balls:
  "delete_loop ids (bs, del) = (bs', del') \<Longrightarrow> bs' = filter (\<lambda>p. fst p \<notin> set ids) bs"
proof (induction ids arbitrary: bs del)
  case Nil
  then show ?case by simp
next
  case (Cons k ids)
  show ?case
  proof (cases "map_of bs k")
    case None
    then have "k \<notin> fst ` set bs" by (simp add: map_of_eq_None_keys)
    then have "filter (\<lambda>p. fst p \<notin> set (k # ids)) bs = filter (\<lambda>p. fst p \<notin> set ids) bs"
      by (intro filter_cong) auto
    with Cons None show ?thesis by simp
  next
    case (Some ball)
    with Cons.prems have "delete_loop ids (AList.delete k bs, del @ [k]) = (bs', del')"
      by simp
    from Cons.IH [OF this] show ?thesis
      by (simp add: delete_as_filter conj_commute)
  qed
qed

lemma delete_loop_deleted:
  "delete_loop ids (bs, del) = (bs', del') \<Longrightarrow> set del' = set del \<union> (set ids \<inter> fst ` set bs)"
proof (induction ids arbitrary: bs del)
  case Nil
  then show ?case by simp
next
  case (Cons k ids)
  show ?case
  proof (cases "map_of bs k")
    case None
    then have "k \<notin> fst ` set bs" by (simp add: map_of_eq_None_keys)
    with Cons None show ?thesis by auto
  next
    case (Some ball)
    then have k: "k \<in> fst ` set bs"
      by (metis map_of_eq_None_keys option.distinct(1))
    from Some Cons.prems have "delete_loop ids (AList.delete k bs, del @ [k]) = (bs', del')"
      by simp
    from Cons.IH [OF this] have "set del' = set (del @ [k]) \<union> (set ids \<inter> fst ` set (AList.delete k bs))" .
    with k show ?thesis
      by (auto simp: delete_as_filter)
  qed
qed

lemma mix_phase_keys:
  assumes "mix_phase t bs = (bs', ps, e)"
  shows "map fst bs' = map fst bs"
proof (cases "t > 0")
  case False
  with assms show ?thesis by (simp add: mix_phase_def)
next
  case True
  obtain vals ps1 e1 where m: "mix_all t (map snd bs) = (vals, ps1, e1)"
    using prod_cases3 by blast
  from mix_all_recolored [OF m] have "length vals = length bs"
    by (simp add: list_all2_lengthD [symmetric])
  moreover from assms True m have "bs' = zip (map fst bs) vals"
    by (simp add: mix_phase_def)
  ultimately show ?thesis by simp
qed

lemma mix_phase_recolored:
  assumes "mix_phase t bs = (bs', ps, e)" and "(k, b') \<in> set bs'"
  shows "\<exists>b. (k, b) \<in> set bs \<and> recolored b b'"
proof (cases "t > 0")
  case False
  with assms show ?thesis by (auto simp: mix_phase_def recolored_refl)
next
  case True
  obtain vals ps1 e1 where m: "mix_all t (map snd bs) = (vals, ps1, e1)"
    using prod_cases3 by blast
  from mix_all_recolored [OF m] have r: "list_all2 recolored (map snd bs) vals" .
  then have len: "length vals = length bs"
    by (simp add: list_all2_lengthD [symmetric])
  from assms True m have bs': "bs' = zip (map fst bs) vals"
    by (simp add: mix_phase_def)
  with assms(2) obtain i where i: "i < length bs" "k = fst (bs ! i)" "b' = vals ! i"
    using len by (auto simp: set_zip)
  from r i(1) have "recolored (snd (bs ! i)) (vals ! i)"
    by (simp add: list_all2_conv_all_nth)
  moreover have "(k, snd (bs ! i)) \<in> set bs"
    using i(1,2) by (metis nth_mem prod.collapse)
  ultimately show ?thesis
    using i(3) by blast
qed

lemma capture_phase_balls:
  assumes "capture_phase s bs iv = (bs', iv', cap)"
  shows "set bs' \<subseteq> set bs"
proof (cases "is_active s")
  case False
  with assms show ?thesis by (simp add: capture_phase_def)
next
  case True
  with assms have "capture_loop (to_capture s bs) (bs, iv, []) = (bs', iv', cap)"
    by (simp add: capture_phase_def)
  from capture_loop_balls [OF this] show ?thesis by auto
qed

lemma delete_phase_balls:
  assumes "delete_phase z bs = (bs', del)"
  shows "set bs' \<subseteq> set bs"
  using delete_loop_balls [of "to_delete z bs" bs "[]" bs' del] assms
  by (auto simp: delete_phase_def)

lemma step_cases [consumes 1, case_names raised returned]:
  assumes "0 < dt"
  obtains
    bs3 iv3 cap bs4 ps e where
      "capture_phase (suction g) (moved_balls g dt) (inventory g) = (bs3, iv3, cap)"
      "mix_phase (clamp (max_color_mix_factor_per_second g * dt) 0 (75 / 100)) bs3 = (bs4, ps, Some e)"
      "step g dt = (g\<lparr>balls := bs4, inventory := iv3\<rparr>, Inl e)"
  | bs3 iv3 cap bs4 ps bs5 del where
      "capture_phase (suction g) (moved_balls g dt) (inventory g) = (bs3, iv3, cap)"
      "mix_phase (clamp (max_color_mix_factor_per_second g * dt) 0 (75 / 100)) bs3 = (bs4, ps, None)"
      "delete_phase (delete_zone g) bs4 = (bs5, del)"
      "step g dt = (g\<lparr>balls := bs5, inventory := iv3\<rparr>,
         Inr \<lparr>time_advanced_s = dt, mixed_pairs = ps, deleted_ball_ids = del,
              captured_ball_ids = cap, released_ball_ids = []\<rparr>)"
proof -
  obtain bs3 iv3 cap where c: "capture_phase (suction g) (moved_balls g dt) (inventory g) = (bs3, iv3, cap)"
    using prod_cases3 by blast
  obtain bs4 ps err where m:
    "mix_phase (clamp (max_color_mix_factor_per_second g * dt) 0 (75 / 100)) bs3 = (bs4, ps, err)"
    using prod_cases3 by blast
  obtain bs5 del where d: "delete_phase (delete_zone g) bs4 = (bs5, del)"
    by fastforce
  from assms have dt: "max 0 dt = dt" "dt \<noteq> 0" by simp_all
  show thesis
  proof (cases err)
    case (Some e)
    have "step g dt = (g\<lparr>balls := bs4, inventory := iv3\<rparr>, Inl e)"
      using c m Some dt by (simp add: step_def Let_def)
    with c m Some that(1) show thesis by blast
  next
    case None
    have "step g dt = (g\<lparr>balls := bs5, inventory := iv3\<rparr>,
         Inr \<lparr>time_advanced_s = dt, mixed_pairs = ps, deleted_ball_ids = del,
              captured_ball_ids = cap, released_ball_ids = []\<rparr>)"
      using c m d None dt by (simp add: step_def Let_def)
    with c m d None that(2) show thesis by blast
  qed
qed


lemma suction_ball_keeps:
  "radius (suction_ball s dt b) = radius b \<and> position (suction_ball s dt b) = position b
   \<and> ball_id (suction_ball s dt b) = ball_id b \<and> mass (suction_ball s dt b) = mass b
   \<and> color_rgb (suction_ball s dt b) = color_rgb b"
  by (simp add: suction_ball_def Let_def split: prod.splits)

lemma integrate_ball_keeps:
  "radius (integrate_ball g dt d b) = radius b \<and> ball_id (integrate_ball g dt d b) = ball_id b
   \<and> mass (integrate_ball g dt d b) = mass b \<and> color_rgb (integrate_ball g dt d b) = color_rgb b"
  by (simp add: integrate_ball_def Let_def split: prod.splits)

lemma moved_balls_elem:
  assumes "(k, b) \<in> set (moved_balls g dt)"
  shows "\<exists>b0. (k, b0) \<in> set (balls g)
           \<and> b = integrate_ball g dt (exp (- linear_damping_per_second g * dt))
                   (if is_active (suction g) then suction_ball (suction g) dt b0 else b0)"
proof (cases "is_active (suction g)")
  case True
  with assms show ?thesis
    by (auto simp: moved_balls_def integrate_phase_def suction_phase_def)
next
  case False
  with assms show ?thesis
    by (auto simp: moved_balls_def integrate_phase_def suction_phase_def)
qed


subsection \<open>Bounce keeps the balls inside the world, up to rounding\<close>








subsection \<open>Wrapping at the boundary\<close>




subsection \<open>Spitting\<close>


lemma hypot_3_4: "hypot 3 4 = 5"
proof -
  have "hypot 3 4 = sqrt (5 ^ 2)"
    by (simp add: hypot_def)
  then show ?thesis
    by (simp del: power2_eq_square)
qed


lemma update_fresh_key: "k \<notin> fst ` set al \<Longrightarrow> AList.update k v al = al @ [(k, v)]"
  by (induction al) auto

lemma normalize_vec_3_4: "normalize_vec (3, 4) = (3 / 5, 4 / 5)"
  by (simp add: normalize_vec_def hypot_3_4)

text \<open>Claim C10, amended: when \<open>spit_specific\<close> or \<open>spit_next\<close> releases the ball \<open>bid\<close>, the
  ball it puts into the active set is the captured one with only its position and velocity
  overwritten (id, radius, colour and mass are the captured ball's), the id leaves the
  inventory and the other entries of the inventory stay as they are and in their order, every
  other id maps to the same ball as before in both dicts, and nothing else of the world
  changes. If no active ball is stored under \<open>bid\<close>, the released ball comes behind the
  active balls, which all stay; an active ball that is stored under \<open>bid\<close> itself is replaced
  by the released one.\<close>

theorem spit_frame:
  assumes "spit_specific g bid pos direction speed = (g', True)
           \<or> spit_next g pos direction speed = (g', Some bid)"
  shows "\<exists>ball. map_of (inventory g) bid = Some ball
      \<and> map_of (balls g') bid =
          Some (ball\<lparr>position := pos,
                     velocity := (fst (normalize_vec direction) * speed,
                                  snd (normalize_vec direction) * speed)\<rparr>)
      \<and> map_of (inventory g') bid = None
      \<and> (\<forall>k. k \<noteq> bid \<longrightarrow>
            map_of (balls g') k = map_of (balls g) k
            \<and> map_of (inventory g') k = map_of (inventory g) k)
      \<and> (bid \<notin> fst ` set (balls g) \<longrightarrow>
            balls g' = balls g
              @ [(bid, ball\<lparr>position := pos,
                            velocity := (fst (normalize_vec direction) * speed,
                                         snd (normalize_vec direction) * speed)\<rparr>)])
      \<and> inventory g' = filter (\<lambda>p. fst p \<noteq> bid) (inventory g)
      \<and> g'\<lparr>balls := balls g, inventory := inventory g\<rparr> = g"
proof -
  obtain ball where ball: "map_of (inventory g) bid = Some ball"
    and g': "g' = g\<lparr>inventory := AList.delete bid (inventory g),
                    balls := AList.update bid
                      (ball\<lparr>position := pos,
                            velocity := (fst (normalize_vec direction) * speed,
                                         snd (normalize_vec direction) * speed)\<rparr>) (balls g)\<rparr>"
    using assms
    by (auto simp: spit_specific_def spit_next_def Let_def split: option.splits list.splits prod.splits)
  have f: "bid \<notin> fst ` set (balls g) \<longrightarrow>
            balls g' = balls g
              @ [(bid, ball\<lparr>position := pos,
                            velocity := (fst (normalize_vec direction) * speed,
                                         snd (normalize_vec direction) * speed)\<rparr>)]"
    by (simp add: g' update_fresh_key)
  have i: "inventory g' = filter (\<lambda>p. fst p \<noteq> bid) (inventory g)"
    by (simp add: g' delete_as_filter)
  have r: "map_of (inventory g) bid = Some ball
      \<and> map_of (balls g') bid =
          Some (ball\<lparr>position := pos,
                     velocity := (fst (normalize_vec direction) * speed,
                                  snd (normalize_vec direction) * speed)\<rparr>)
      \<and> map_of (inventory g') bid = None
      \<and> (\<forall>k. k \<noteq> bid \<longrightarrow>
            map_of (balls g') k = map_of (balls g) k
            \<and> map_of (inventory g') k = map_of (inventory g) k)
      \<and> g'\<lparr>balls := balls g, inventory := inventory g\<rparr> = g"
    by (simp add: ball g' AList.update_conv' AList.delete_conv')
  show ?thesis
    by (rule exI [of _ ball]) (intro conjI f i r [THEN conjunct1] r [THEN conjunct2, THEN conjunct1]
        r [THEN conjunct2, THEN conjunct2, THEN conjunct1]
        r [THEN conjunct2, THEN conjunct2, THEN conjunct2, THEN conjunct1]
        r [THEN conjunct2, THEN conjunct2, THEN conjunct2, THEN conjunct2])
qed

text \<open>Releasing \<open>b\<close> from \<open>stock_world\<close> by \<open>spit_specific\<close>, and its first ball \<open>a\<close> by
  \<open>spit_next\<close>, towards (3, 4) at speed 10: the active ball \<open>d\<close> and the other captured balls
  stay as they are.\<close>

theorem spit_frame_witness:
  "snd (spit_specific stock_world ''b'' (1, 2) (3, 4) 10) = True
   \<and> balls (fst (spit_specific stock_world ''b'' (1, 2) (3, 4) 10))
       = [(''d'', new_Ball ''d'' (10, 10) (0, 0) 5 (0, 0, 1)),
          (''b'', (new_Ball ''b'' (30, 30) (2, 2) 6 (0, 1, 0))\<lparr>position := (1, 2), velocity := (6, 8)\<rparr>)]
   \<and> inventory (fst (spit_specific stock_world ''b'' (1, 2) (3, 4) 10))
       = [(''a'', new_Ball ''a'' (20, 20) (1, 1) 5 (1, 0, 0)),
          (''c'', new_Ball ''c'' (40, 40) (3, 3) 7 (1, 1, 0))]
   \<and> map_of (balls (fst (spit_specific stock_world ''b'' (1, 2) (3, 4) 10))) ''d''
       = Some (new_Ball ''d'' (10, 10) (0, 0) 5 (0, 0, 1))
   \<and> map_of (inventory (fst (spit_specific stock_world ''b'' (1, 2) (3, 4) 10))) ''b'' = None
   \<and> map_of (inventory (fst (spit_specific stock_world ''b'' (1, 2) (3, 4) 10))) ''c''
       = Some (new_Ball ''c'' (40, 40) (3, 3) 7 (1, 1, 0))
   \<and> snd (spit_next stock_world (1, 2) (3, 4) 10) = Some ''a''
   \<and> balls (fst (spit_next stock_world (1, 2) (3, 4) 10))
       = [(''d'', new_Ball ''d'' (10, 10) (0, 0) 5 (0, 0, 1)),
          (''a'', (new_Ball ''a'' (20, 20) (1, 1) 5 (1, 0, 0))\<lparr>position := (1, 2), velocity := (6, 8)\<rparr>)]
   \<and> inventory (fst (spit_next stock_world (1, 2) (3, 4) 10))
       = [(''b'', new_Ball ''b'' (30, 30) (2, 2) 6 (0, 1, 0)),
          (''c'', new_Ball ''c'' (40, 40) (3, 3) 7 (1, 1, 0))]"
proof -
  define g' where "g' = fst (spit_specific stock_world ''b'' (1, 2) (3, 4) 10)"
  define g'' where "g'' = fst (spit_next stock_world (1, 2) (3, 4) 10)"
  have r: "spit_specific stock_world ''b'' (1, 2) (3, 4) 10 = (g', True)"
    by (simp add: g'_def spit_specific_def stock_world_def Let_def split: prod.splits)
  have r': "spit_next stock_world (1, 2) (3, 4) 10 = (g'', Some ''a'')"
    by (simp add: g''_def spit_next_def stock_world_def Let_def split: prod.splits)
  have fresh: "''b'' \<notin> fst ` set (balls stock_world)" "''a'' \<notin> fst ` set (balls stock_world)"
    by (simp_all add: stock_world_def)
  from spit_frame [OF disjI1, OF r] obtain ball where
    t: "map_of (inventory stock_world) ''b'' = Some ball"
       "map_of (inventory g') ''b'' = None"
       "\<forall>k. k \<noteq> ''b'' \<longrightarrow>
            map_of (balls g') k = map_of (balls stock_world) k
            \<and> map_of (inventory g') k = map_of (inventory stock_world) k"
       "''b'' \<notin> fst ` set (balls stock_world) \<longrightarrow>
            balls g' = balls stock_world
              @ [(''b'', ball\<lparr>position := (1, 2),
                     velocity := (fst (normalize_vec (3, 4)) * 10, snd (normalize_vec (3, 4)) * 10)\<rparr>)]"
       "inventory g' = filter (\<lambda>p. fst p \<noteq> ''b'') (inventory stock_world)"
    by blast
  from spit_frame [OF disjI2, OF r'] obtain ball' where
    t': "map_of (inventory stock_world) ''a'' = Some ball'"
       "''a'' \<notin> fst ` set (balls stock_world) \<longrightarrow>
            balls g'' = balls stock_world
              @ [(''a'', ball'\<lparr>position := (1, 2),
                     velocity := (fst (normalize_vec (3, 4)) * 10, snd (normalize_vec (3, 4)) * 10)\<rparr>)]"
       "inventory g'' = filter (\<lambda>p. fst p \<noteq> ''a'') (inventory stock_world)"
    by blast
  from t(1) have ball: "ball = new_Ball ''b'' (30, 30) (2, 2) 6 (0, 1, 0)"
    by (simp add: stock_world_def)
  from t'(1) have ball': "ball' = new_Ball ''a'' (20, 20) (1, 1) 5 (1, 0, 0)"
    by (simp add: stock_world_def)
  from t(3) have "map_of (balls g') ''d'' = map_of (balls stock_world) ''d''"
    "map_of (inventory g') ''c'' = map_of (inventory stock_world) ''c''"
    by simp_all
  then have o: "map_of (balls g') ''d'' = Some (new_Ball ''d'' (10, 10) (0, 0) 5 (0, 0, 1))"
    "map_of (inventory g') ''c'' = Some (new_Ball ''c'' (40, 40) (3, 3) 7 (1, 1, 0))"
    by (simp_all add: stock_world_def)
  from t(4) fresh(1) have b1: "balls g'
       = [(''d'', new_Ball ''d'' (10, 10) (0, 0) 5 (0, 0, 1)),
          (''b'', (new_Ball ''b'' (30, 30) (2, 2) 6 (0, 1, 0))\<lparr>position := (1, 2), velocity := (6, 8)\<rparr>)]"
    by (simp add: ball normalize_vec_3_4 stock_world_def)
  from t'(2) fresh(2) have b2: "balls g''
       = [(''d'', new_Ball ''d'' (10, 10) (0, 0) 5 (0, 0, 1)),
          (''a'', (new_Ball ''a'' (20, 20) (1, 1) 5 (1, 0, 0))\<lparr>position := (1, 2), velocity := (6, 8)\<rparr>)]"
    by (simp add: ball' normalize_vec_3_4 stock_world_def)
  from t(5) have i1: "inventory g'
       = [(''a'', new_Ball ''a'' (20, 20) (1, 1) 5 (1, 0, 0)),
          (''c'', new_Ball ''c'' (40, 40) (3, 3) 7 (1, 1, 0))]"
    by (simp add: stock_world_def)
  from t'(3) have i2: "inventory g''
       = [(''b'', new_Ball ''b'' (30, 30) (2, 2) 6 (0, 1, 0)),
          (''c'', new_Ball ''c'' (40, 40) (3, 3) 7 (1, 1, 0))]"
    by (simp add: stock_world_def)
  from r have s1: "snd (spit_specific stock_world ''b'' (1, 2) (3, 4) 10) = True"
    by simp
  from r' have s2: "snd (spit_next stock_world (1, 2) (3, 4) 10) = Some ''a''"
    by simp
  show ?thesis
    unfolding g'_def [symmetric] g''_def [symmetric]
    by (intro conjI) (fact s1 b1 i1 o t(2) s2 b2 i2)+
qed

lemma suction_phase_keys: "map fst (suction_phase s dt bs) = map fst bs"
  by (induction bs) (auto simp: suction_phase_def)

lemma integrate_phase_keys: "map fst (integrate_phase g dt d bs) = map fst bs"
  by (induction bs) (auto simp: integrate_phase_def)

lemma moved_balls_keys: "map fst (moved_balls g dt) = map fst (balls g)"
  by (simp add: moved_balls_def suction_phase_keys integrate_phase_keys)

subsection \<open>The order of the inventory\<close>







lemma moved_balls_wf: "wf_dict (balls g) \<Longrightarrow> wf_dict (moved_balls g dt)"
  unfolding wf_dict_def
  by (auto simp: moved_balls_keys dest!: moved_balls_elem
      simp: integrate_ball_keeps suction_ball_keeps)






subsection \<open>Capture comes before deletion\<close>

lemma capture_loop_lookup:
  "capture_loop ids (bs, iv, cap) = (bs', iv', cap') \<Longrightarrow>
     map_of iv' k = (if k \<in> set ids \<and> k \<in> fst ` set bs then map_of bs k else map_of iv k)"
proof (induction ids arbitrary: bs iv cap)
  case Nil
  then show ?case by simp
next
  case (Cons k0 ids)
  show ?case
  proof (cases "map_of bs k0")
    case None
    then have "k0 \<notin> fst ` set bs" by (simp add: map_of_eq_None_keys)
    with Cons None show ?thesis by auto
  next
    case (Some ball0)
    then have k0: "k0 \<in> fst ` set bs"
      by (metis map_of_eq_None_keys option.distinct(1))
    from Some Cons.prems have "capture_loop ids (AList.delete k0 bs, AList.update k0 ball0 iv, cap @ [k0]) = (bs', iv', cap')"
      by simp
    from Cons.IH [OF this] have ih: "map_of iv' k =
        (if k \<in> set ids \<and> k \<in> fst ` set (AList.delete k0 bs) then map_of (AList.delete k0 bs) k
         else map_of (AList.update k0 ball0 iv) k)" .
    show ?thesis
    proof (cases "k = k0")
      case True
      have "k0 \<notin> fst ` set (AList.delete k0 bs)"
        by (rule AList.delete_notin_dom)
      with ih True Some k0 show ?thesis
        by (simp add: AList.update_conv')
    next
      case False
      then have "k \<in> fst ` set (AList.delete k0 bs) \<longleftrightarrow> k \<in> fst ` set bs"
        by (force simp: delete_as_filter)
      with ih False show ?thesis
        by (simp add: AList.update_conv' AList.delete_conv')
    qed
  qed
qed

lemma wf_dict_lookup: "wf_dict d \<Longrightarrow> (k, b) \<in> set d \<Longrightarrow> map_of d k = Some b \<and> ball_id b = k"
  by (auto simp: wf_dict_def)

text \<open>Claim C2: in a step with \<open>dt > 0\<close> and the suction on, a ball whose post-motion
  position is within the capture threshold of the suction point and also inside the delete
  zone ends in the inventory (as the ball it was after the motion) and not in the active
  set; a returned result lists it in \<open>captured_ball_ids\<close> and not in \<open>deleted_ball_ids\<close>. The
  active set is taken as well-formed. (The delete zone plays no part in the proof: a ball
  that meets the capture condition is captured wherever it is.)\<close>

theorem capture_before_delete:
  assumes "0 < dt" and "is_active (suction g)" and "wf_dict (balls g)"
    and "(k, b) \<in> set (moved_balls g dt)"
    and "capture_cond (suction g) b"
    and "contains_point (delete_zone g) (position b)"
    and "step g dt = (g', r)"
  shows "map_of (inventory g') k = Some b \<and> k \<notin> fst ` set (balls g')
      \<and> (\<forall>res. r = Inr res \<longrightarrow>
            k \<in> set (captured_ball_ids res) \<and> k \<notin> set (deleted_ball_ids res))"
proof -
  let ?mv = "moved_balls g dt"
  let ?ids = "to_capture (suction g) ?mv"
  have wf: "wf_dict ?mv"
    by (rule moved_balls_wf [OF assms(3)])
  from wf_dict_lookup [OF wf assms(4)] have look: "map_of ?mv k = Some b" and id: "ball_id b = k"
    by simp_all
  have kin: "k \<in> fst ` set ?mv"
    using assms(4) by force
  have "b \<in> set (filter (capture_cond (suction g)) (map snd ?mv))"
    using assms(4,5) by force
  then have kids: "k \<in> set ?ids"
    unfolding to_capture_def using id by force
  have facts: "map_of iv3 k = Some b \<and> k \<in> set cap \<and> k \<notin> fst ` set bs3"
    if c: "capture_phase (suction g) ?mv (inventory g) = (bs3, iv3, cap)" for bs3 iv3 cap
  proof -
    from c assms(2) have l: "capture_loop ?ids (?mv, inventory g, []) = (bs3, iv3, cap)"
      by (simp add: capture_phase_def)
    from capture_loop_lookup [OF l, of k] kids kin look have "map_of iv3 k = Some b"
      by simp
    moreover from capture_loop_captured [OF l] kids kin have "k \<in> set cap"
      by simp
    moreover from capture_loop_balls [OF l] kids have "k \<notin> fst ` set bs3"
      by auto
    ultimately show ?thesis by simp
  qed
  from assms(1) show ?thesis
  proof (cases rule: step_cases [where g = g])
    case (raised bs3 iv3 cap bs4 ps e)
    from mix_phase_keys [OF raised(2)] have "fst ` set bs4 = fst ` set bs3"
      by (metis set_map)
    with facts [OF raised(1)] raised(3) assms(7) show ?thesis
      by auto
  next
    case (returned bs3 iv3 cap bs4 ps bs5 del)
    from mix_phase_keys [OF returned(2)] have k4: "fst ` set bs4 = fst ` set bs3"
      by (metis set_map)
    from returned(3) have l: "delete_loop (to_delete (delete_zone g) bs4) (bs4, []) = (bs5, del)"
      by (simp add: delete_phase_def)
    from delete_loop_deleted [OF l] have "set del \<subseteq> fst ` set bs4"
      by auto
    moreover from delete_phase_balls [OF returned(3)] have "fst ` set bs5 \<subseteq> fst ` set bs4"
      by auto
    ultimately show ?thesis
      using facts [OF returned(1)] k4 returned(4) assms(7) by auto
  qed
qed

text \<open>The ball of \<open>mouth_world\<close> is at the suction point and inside the delete zone; the
  step captures it and deletes nothing.\<close>

theorem capture_before_delete_witness:
  "(0::real) < 1 \<and> is_active (suction mouth_world) \<and> wf_dict (balls mouth_world)
   \<and> moved_balls mouth_world 1 = [(''x'', new_Ball ''x'' (50, 50) (0, 0) 5 (0, 0, 1))]
   \<and> capture_cond (suction mouth_world) (new_Ball ''x'' (50, 50) (0, 0) 5 (0, 0, 1))
   \<and> contains_point (delete_zone mouth_world) (position (new_Ball ''x'' (50, 50) (0, 0) 5 (0, 0, 1)))
   \<and> map_of (inventory (fst (step mouth_world 1))) ''x''
        = Some (new_Ball ''x'' (50, 50) (0, 0) 5 (0, 0, 1))
   \<and> ''x'' \<notin> fst ` set (balls (fst (step mouth_world 1)))
   \<and> captured_ball_ids (projr (snd (step mouth_world 1))) = [''x'']
   \<and> deleted_ball_ids (projr (snd (step mouth_world 1))) = []"
proof -
  have h2: "is_active (suction mouth_world)"
    by (simp add: mouth_world_def)
  have h3: "wf_dict (balls mouth_world)"
    by (simp add: mouth_world_def wf_dict_def new_Ball_def)
  have mv: "moved_balls mouth_world 1 = [(''x'', new_Ball ''x'' (50, 50) (0, 0) 5 (0, 0, 1))]"
    by (simp add: mouth_world_def demo_world_def init_def new_Ball_def new_Suction_def Let_def
        moved_balls_def suction_phase_def suction_ball_def hypot_def integrate_phase_def
        integrate_ball_def integrate_motion_def boundary_def fl_numeral fl_less_zero_iff clamp_def)
  have h4: "(''x'', new_Ball ''x'' (50, 50) (0, 0) 5 (0, 0, 1)) \<in> set (moved_balls mouth_world 1)"
    by (simp add: mv)
  have h5: "capture_cond (suction mouth_world) (new_Ball ''x'' (50, 50) (0, 0) 5 (0, 0, 1))"
    by (simp add: mouth_world_def new_Suction_def new_Ball_def capture_cond_def hypot_def)
  have h6: "contains_point (delete_zone mouth_world) (position (new_Ball ''x'' (50, 50) (0, 0) 5 (0, 0, 1)))"
    by (simp add: mouth_world_def demo_world_def init_def new_Ball_def contains_point_def)
  have st: "snd (step mouth_world 1) =
      Inr \<lparr>time_advanced_s = 1, mixed_pairs = [], deleted_ball_ids = [],
           captured_ball_ids = [''x''], released_ball_ids = []\<rparr>"
    by (simp add: step_def mouth_world_def demo_world_def init_def new_Ball_def
        new_Suction_def Let_def moved_balls_def suction_phase_def suction_ball_def hypot_def
        integrate_phase_def integrate_ball_def integrate_motion_def boundary_def fl_numeral
        fl_less_zero_iff
        capture_phase_def to_capture_def capture_cond_def clamp_def
        mix_phase_def delete_phase_def to_delete_def contains_point_def)
  have "map_of (inventory (fst (step mouth_world 1))) ''x''
        = Some (new_Ball ''x'' (50, 50) (0, 0) 5 (0, 0, 1))
      \<and> ''x'' \<notin> fst ` set (balls (fst (step mouth_world 1)))"
    using capture_before_delete [OF zero_less_one h2 h3 h4 h5 h6 prod.collapse [symmetric]]
    by simp
  with h2 h3 mv h5 h6 st show ?thesis
    by simp
qed

subsection \<open>Colours stay in range\<close>

lemma clamp_unit: "0 \<le> clamp x 0 1 \<and> clamp x 0 1 \<le> 1"
  by (simp add: clamp_def)

lemma hsv_to_rgb_total: "\<exists>c. hsv_to_rgb h s v = Inr c"
proof -
  define i6 where "i6 = py_int (h * 6) mod 6"
  have "0 \<le> i6" "i6 < 6"
    by (simp_all add: i6_def)
  then have "i6 = 0 \<or> i6 = 1 \<or> i6 = 2 \<or> i6 = 3 \<or> i6 = 4 \<or> i6 = 5"
    by arith
  then show ?thesis
    unfolding hsv_to_rgb_def Let_def i6_def [symmetric] by auto
qed

lemma rgb_to_hsv_ok:
  assumes "valid_color (r, g, b)"
  shows "\<exists>hsv. rgb_to_hsv r g b = Inr hsv"
proof (cases "min (min r g) b = max (max r g) b")
  case True
  then show ?thesis by (simp add: rgb_to_hsv_def)
next
  case False
  from assms have "0 \<le> min (min r g) b"
    by (simp add: valid_color_def)
  moreover have "min (min r g) b \<le> max (max r g) b"
    by (simp add: min_le_iff_disj le_max_iff_disj)
  ultimately have "max (max r g) b \<noteq> 0"
    using False by linarith
  with False show ?thesis
    by (simp add: rgb_to_hsv_def Let_def)
qed

lemma mix_color_towards_valid:
  "mix_color_towards src dst t = Inr c \<Longrightarrow> valid_color c"
  by (auto simp: mix_color_towards_def valid_color_def clamp_unit Let_def
      split: prod.splits sum.splits)

lemma mix_color_towards_ok:
  assumes "valid_color src" and "valid_color dst"
  shows "\<exists>c. mix_color_towards src dst t = Inr c \<and> valid_color c"
proof -
  obtain sr sg sb dr dg db where c: "src = (sr, sg, sb)" "dst = (dr, dg, db)"
    using prod_cases3 by metis
  from assms c obtain sh ss sv dh ds dv where
    h: "rgb_to_hsv sr sg sb = Inr (sh, ss, sv)" "rgb_to_hsv dr dg db = Inr (dh, ds, dv)"
    using rgb_to_hsv_ok by (metis prod_cases3)
  obtain r g b where "hsv_to_rgb (angle_lerp sh dh t)
      (clamp ((1 - t) * ss + t * max ss ds) (35 / 100) 1)
      (clamp ((1 - t) * sv + t * dv) 0 (92 / 100)) = Inr (r, g, b)"
    using hsv_to_rgb_total by (metis prod_cases3)
  with c h have "mix_color_towards src dst t = Inr (clamp r 0 1, clamp g 0 1, clamp b 0 1)"
    by (simp add: mix_color_towards_def Let_def)
  then show ?thesis
    using mix_color_towards_valid by blast
qed

lemma mix_one_ok:
  assumes "valid_color (color_rgb a)" and "list_all (\<lambda>b. valid_color (color_rgb b)) bs"
  shows "\<exists>a' bs' ps. mix_one t a bs = (a', bs', ps, None) \<and> valid_color (color_rgb a')
           \<and> list_all (\<lambda>b. valid_color (color_rgb b)) bs'"
  using assms
proof (induction bs arbitrary: a)
  case Nil
  then show ?case by simp
next
  case (Cons b bs)
  from Cons.prems have vb: "valid_color (color_rgb b)"
    and vbs: "list_all (\<lambda>b. valid_color (color_rgb b)) bs"
    by simp_all
  show ?case
  proof (cases "overlap a b")
    case False
    from Cons.IH [OF Cons.prems(1) vbs] obtain a' bs' ps where
      "mix_one t a bs = (a', bs', ps, None)" "valid_color (color_rgb a')"
      "list_all (\<lambda>b. valid_color (color_rgb b)) bs'"
      by blast
    with False vb show ?thesis by simp
  next
    case True
    from mix_color_towards_ok [OF Cons.prems(1) vb] obtain ca where
      ca: "mix_color_towards (color_rgb a) (color_rgb b) t = Inr ca" "valid_color ca"
      by blast
    from mix_color_towards_ok [OF vb ca(2)] obtain cb where
      cb: "mix_color_towards (color_rgb b) ca t = Inr cb" "valid_color cb"
      by blast
    have "valid_color (color_rgb (a\<lparr>color_rgb := ca\<rparr>))"
      using ca(2) by simp
    from Cons.IH [OF this vbs] obtain a' bs' ps where
      "mix_one t (a\<lparr>color_rgb := ca\<rparr>) bs = (a', bs', ps, None)" "valid_color (color_rgb a')"
      "list_all (\<lambda>b. valid_color (color_rgb b)) bs'"
      by blast
    with True ca cb show ?thesis by simp
  qed
qed

lemma mix_all_ok:
  "list_all (\<lambda>b. valid_color (color_rgb b)) bs \<Longrightarrow>
     \<exists>bs' ps. mix_all t bs = (bs', ps, None) \<and> list_all (\<lambda>b. valid_color (color_rgb b)) bs'"
proof (induction t bs rule: mix_all.induct)
  case (1 t)
  then show ?case by simp
next
  case (2 t a bs)
  from "2.prems" have "valid_color (color_rgb a)" "list_all (\<lambda>b. valid_color (color_rgb b)) bs"
    by simp_all
  from mix_one_ok [OF this] obtain a1 bs1 ps1 where
    m: "mix_one t a bs = (a1, bs1, ps1, None)" and v1: "valid_color (color_rgb a1)"
      "list_all (\<lambda>b. valid_color (color_rgb b)) bs1"
    by blast
  from "2.IH" [OF m [symmetric] refl refl refl v1(2)] obtain bs2 ps2 where
    "mix_all t bs1 = (bs2, ps2, None)" "list_all (\<lambda>b. valid_color (color_rgb b)) bs2"
    by blast
  with m v1(1) show ?case by simp
qed

lemma mix_phase_ok:
  assumes "list_all (\<lambda>(k, b). valid_color (color_rgb b)) bs"
  shows "\<exists>bs' ps. mix_phase t bs = (bs', ps, None)
           \<and> list_all (\<lambda>(k, b). valid_color (color_rgb b)) bs'"
proof (cases "t > 0")
  case False
  with assms show ?thesis by (simp add: mix_phase_def)
next
  case True
  from assms have "list_all (\<lambda>b. valid_color (color_rgb b)) (map snd bs)"
    by (simp add: list_all_iff case_prod_beta)
  from mix_all_ok [OF this] obtain vals ps where
    m: "mix_all t (map snd bs) = (vals, ps, None)" and v: "list_all (\<lambda>b. valid_color (color_rgb b)) vals"
    by blast
  have "list_all (\<lambda>(k, b). valid_color (color_rgb b)) (zip (map fst bs) vals)"
    using v by (auto simp: list_all_iff dest: set_zip_rightD)
  with True m show ?thesis
    by (simp add: mix_phase_def)
qed

lemma step_ok:
  assumes "0 < dt" and "list_all (\<lambda>(k, b). valid_color (color_rgb b)) (balls g)"
  shows "(\<exists>res. snd (step g dt) = Inr res)
       \<and> list_all (\<lambda>(k, b). valid_color (color_rgb b)) (balls (fst (step g dt)))"
proof -
  have mv: "list_all (\<lambda>(k, b). valid_color (color_rgb b)) (moved_balls g dt)"
    unfolding list_all_iff
  proof (clarify)
    fix k b assume "(k, b) \<in> set (moved_balls g dt)"
    from moved_balls_elem [OF this] obtain b0 where "(k, b0) \<in> set (balls g)"
      "color_rgb b = color_rgb b0"
      by (auto simp: integrate_ball_keeps suction_ball_keeps)
    with assms(2) show "valid_color (color_rgb b)"
      by (auto simp: list_all_iff)
  qed
  obtain bs3 iv3 cap where c: "capture_phase (suction g) (moved_balls g dt) (inventory g) = (bs3, iv3, cap)"
    using prod_cases3 by blast
  from capture_phase_balls [OF c] mv have v3: "list_all (\<lambda>(k, b). valid_color (color_rgb b)) bs3"
    by (auto simp: list_all_iff)
  from mix_phase_ok [OF v3] obtain bs4 ps where
    m: "mix_phase (clamp (max_color_mix_factor_per_second g * dt) 0 (75 / 100)) bs3 = (bs4, ps, None)"
    and v4: "list_all (\<lambda>(k, b). valid_color (color_rgb b)) bs4"
    by blast
  obtain bs5 del where d: "delete_phase (delete_zone g) bs4 = (bs5, del)"
    using prod.exhaust_sel by blast
  from delete_phase_balls [OF d] v4 have v5: "list_all (\<lambda>(k, b). valid_color (color_rgb b)) bs5"
    by (auto simp: list_all_iff)
  from assms(1) show ?thesis
  proof (cases rule: step_cases [where g = g])
    case (raised bs3' iv3' cap' bs4' ps' e)
    with c m show ?thesis by simp
  next
    case (returned bs3' iv3' cap' bs4' ps' bs5' del')
    with c m d v5 show ?thesis by simp
  qed
qed

text \<open>Claim C8: mixing two colours with channels in [0, 1] by a factor in (0, 0.75] raises
  no exception and gives a colour with channels in [0, 1]; and a step with \<open>dt > 0\<close> on a world
  whose active balls all have such colours returns a result and leaves every active ball
  with such a colour, whatever pairs it mixed.\<close>

theorem mixed_colors_in_range:
  "(valid_color src \<and> valid_color dst \<and> 0 < t \<and> t \<le> 3 / 4 \<longrightarrow>
      (\<exists>c. mix_color_towards src dst t = Inr c \<and> valid_color c))
   \<and> (0 < dt \<and> list_all (\<lambda>(k, b). valid_color (color_rgb b)) (balls g) \<longrightarrow>
        (\<exists>res. snd (step g dt) = Inr res)
        \<and> list_all (\<lambda>(k, b). valid_color (color_rgb b)) (balls (fst (step g dt))))"
  using mix_color_towards_ok [of src dst t] step_ok [of dt g] by blast

subsection \<open>Mixing two shades of red\<close>

lemma sqrt_25: "sqrt 25 = 5"
proof -
  have "sqrt (5 ^ 2) = 5" by (simp del: power2_eq_square)
  then show ?thesis by simp
qed

lemma py_mod_0: "py_mod 0 b = 0"
  by (simp add: py_mod_def)

lemma angle_lerp_0_0: "angle_lerp 0 0 t = 0"
proof -
  have "\<lfloor>pi / (2 * pi)\<rfloor> = 0"
    by simp
  then have "py_mod pi (2 * pi) = pi"
    by (simp add: py_mod_def)
  then show ?thesis
    by (simp add: angle_lerp_def Let_def py_mod_0)
qed

lemma rgb_to_hsv_red: "0 < x \<Longrightarrow> rgb_to_hsv x 0 0 = Inr (0, 1, x)"
  by (simp add: rgb_to_hsv_def Let_def py_mod_0)

lemma hsv_to_rgb_red: "hsv_to_rgb 0 1 v = Inr (v, 0, 0)"
  by (simp add: hsv_to_rgb_def Let_def py_int_def)

lemma mix_red:
  assumes "0 < x" and "0 < y"
  shows "mix_color_towards (x, 0, 0) (y, 0, 0) t =
           Inr (clamp (clamp ((1 - t) * x + t * y) 0 (92 / 100)) 0 1, 0, 0)"
proof -
  have "clamp ((1 - t) * 1 + t * max 1 1) (35 / 100) 1 = 1"
    by (simp add: clamp_def algebra_simps)
  then show ?thesis
    using assms
    by (simp add: mix_color_towards_def rgb_to_hsv_red angle_lerp_0_0 hsv_to_rgb_red Let_def)
       (simp add: clamp_def)
qed

lemma mix_red_values:
  "mix_color_towards (1 / 2, 0, 0) (1 / 4, 0, 0) (1 / 2) = Inr (3 / 8, 0, 0)"
  "mix_color_towards (1 / 4, 0, 0) (3 / 8, 0, 0) (1 / 2) = Inr (5 / 16, 0, 0)"
  "mix_color_towards (1 / 4, 0, 0) (1 / 2, 0, 0) (1 / 2) = Inr (3 / 8, 0, 0)"
  "mix_color_towards (1 / 2, 0, 0) (3 / 8, 0, 0) (1 / 2) = Inr (7 / 16, 0, 0)"
  by (simp_all add: mix_red clamp_def)

lemma mix_world_step:
  "step mix_world 1 =
     (mix_world
        \<lparr>balls := [(''a'', new_Ball ''a'' (50, 50) (0, 0) 10 (3 / 8, 0, 0)),
                   (''b'', new_Ball ''b'' (53, 54) (0, 0) 10 (5 / 16, 0, 0))]\<rparr>,
      Inr \<lparr>time_advanced_s = 1, mixed_pairs = [(''a'', ''b'')], deleted_ball_ids = [],
           captured_ball_ids = [], released_ball_ids = []\<rparr>)"
  by (simp add: step_def mix_world_def init_def far_zone_def new_Ball_def
      new_Suction_def Let_def moved_balls_def suction_phase_def
      integrate_phase_def integrate_ball_def integrate_motion_def boundary_def fl_numeral
        fl_less_zero_iff
      capture_phase_def clamp_def mix_phase_def overlap_def hypot_def sqrt_25 mix_red_values
      delete_phase_def to_delete_def contains_point_def)

lemma mix_world_swapped_step:
  "step mix_world_swapped 1 =
     (mix_world_swapped
        \<lparr>balls := [(''b'', new_Ball ''b'' (53, 54) (0, 0) 10 (3 / 8, 0, 0)),
                   (''a'', new_Ball ''a'' (50, 50) (0, 0) 10 (7 / 16, 0, 0))]\<rparr>,
      Inr \<lparr>time_advanced_s = 1, mixed_pairs = [(''b'', ''a'')], deleted_ball_ids = [],
           captured_ball_ids = [], released_ball_ids = []\<rparr>)"
  by (simp add: step_def mix_world_swapped_def init_def far_zone_def new_Ball_def
      new_Suction_def Let_def moved_balls_def suction_phase_def
      integrate_phase_def integrate_ball_def integrate_motion_def boundary_def fl_numeral
        fl_less_zero_iff
      capture_phase_def clamp_def mix_phase_def overlap_def hypot_def sqrt_25 mix_red_values
      delete_phase_def to_delete_def contains_point_def)

text \<open>A run of claim C8's theorem: the two reds of \<open>mix_world\<close> at factor 1/2, and a step
  of that world.\<close>

theorem mixed_colors_in_range_witness:
  "valid_color (1 / 2, 0, 0) \<and> valid_color (1 / 4, 0, 0) \<and> (0::real) < 1 / 2 \<and> (1 / 2::real) \<le> 3 / 4
   \<and> mix_color_towards (1 / 2, 0, 0) (1 / 4, 0, 0) (1 / 2) = Inr (3 / 8, 0, 0)
   \<and> valid_color (3 / 8, 0, 0)
   \<and> (0::real) < 1
   \<and> list_all (\<lambda>(k, b). valid_color (color_rgb b)) (balls mix_world)
   \<and> (\<exists>res. snd (step mix_world 1) = Inr res)
   \<and> list_all (\<lambda>(k, b). valid_color (color_rgb b)) (balls (fst (step mix_world 1)))"
proof -
  note t = mixed_colors_in_range [of "(1 / 2, 0, 0)" "(1 / 4, 0, 0)" "1 / 2" 1 mix_world]
  have v: "valid_color (1 / 2, 0, 0)" "valid_color (1 / 4, 0, 0)"
    by (simp_all add: valid_color_def)
  have "valid_color (1 / 2, 0, 0) \<and> valid_color (1 / 4, 0, 0) \<and> (0::real) < 1 / 2 \<and> (1 / 2::real) \<le> 3 / 4"
    using v by simp
  with t obtain c where c: "mix_color_towards (1 / 2, 0, 0) (1 / 4, 0, 0) (1 / 2) = Inr c" "valid_color c"
    by blast
  then have c': "mix_color_towards (1 / 2, 0, 0) (1 / 4, 0, 0) (1 / 2) = Inr (3 / 8, 0, 0)"
      "valid_color (3 / 8, 0, 0)"
    by (simp_all add: mix_red_values)
  have l: "list_all (\<lambda>(k, b). valid_color (color_rgb b)) (balls mix_world)"
    by (simp add: mix_world_def new_Ball_def valid_color_def)
  then have "(0::real) < 1 \<and> list_all (\<lambda>(k, b). valid_color (color_rgb b)) (balls mix_world)"
    by simp
  with t have s: "\<exists>res. snd (step mix_world 1) = Inr res"
    "list_all (\<lambda>(k, b). valid_color (color_rgb b)) (balls (fst (step mix_world 1)))"
    by blast+
  from v c' l s show ?thesis
    by simp
qed

subsection \<open>The two colours of an overlapping pair\<close>

text \<open>Claim C4 says that both balls of an overlapping pair are mixed towards the other's
  colour from before the mix, so that swapping the balls swaps the results. In \<open>step\<close> the
  second assignment reads the first ball's colour after the first assignment has replaced
  it. In \<open>mix_world\<close> ball \<open>a\<close> is red 1/2 and ball \<open>b\<close> is red 1/4, the factor is 1/2: \<open>a\<close>
  becomes 3/8, the mix of 1/2 towards 1/4, and \<open>b\<close> becomes 5/16, the mix of 1/4 towards 3/8,
  where the mix of 1/4 towards 1/2 is 3/8. With the balls in the other order \<open>b\<close> becomes 3/8
  and \<open>a\<close> becomes 7/16.\<close>

theorem pair_mix_reads_updated_color:
  "map (\<lambda>(k, b). (k, color_rgb b)) (balls mix_world)
     = [(''a'', (1 / 2, 0, 0)), (''b'', (1 / 4, 0, 0))]
   \<and> map (\<lambda>(k, b). (k, color_rgb b)) (balls (fst (step mix_world 1)))
     = [(''a'', (3 / 8, 0, 0)), (''b'', (5 / 16, 0, 0))]
   \<and> mix_color_towards (1 / 2, 0, 0) (1 / 4, 0, 0) (1 / 2) = Inr (3 / 8, 0, 0)
   \<and> mix_color_towards (1 / 4, 0, 0) (1 / 2, 0, 0) (1 / 2) = Inr (3 / 8, 0, 0)
   \<and> map (\<lambda>(k, b). (k, color_rgb b)) (balls (fst (step mix_world_swapped 1)))
     = [(''b'', (3 / 8, 0, 0)), (''a'', (7 / 16, 0, 0))]"
  by (simp add: mix_world_step mix_world_swapped_step mix_red_values new_Ball_def)
     (simp add: mix_world_def new_Ball_def)

subsection \<open>Active set and inventory\<close>

lemma keys_filter: "fst ` set (filter (\<lambda>p. fst p \<notin> S) d) = fst ` set d - S"
  by (induction d) auto

lemma keys_delete: "fst ` set (AList.delete k d) = fst ` set d - {k}"
  by (simp add: delete_as_filter keys_filter [of "{k}", simplified])

lemma exactly_one_add_ball:
  assumes "exactly_one (g, alive)"
    and "snd (add_ball g pos vel r col bid_arg uuid_hex) \<notin> fst ` set (inventory g)"
  shows "exactly_one (fst (add_ball g pos vel r col bid_arg uuid_hex),
           insert (snd (add_ball g pos vel r col bid_arg uuid_hex)) alive)"
  using assms by (auto simp: exactly_one_def add_ball_def Let_def AList.dom_update)

lemma exactly_one_remove_ball:
  assumes "exactly_one (g, alive)"
  shows "exactly_one (fst (remove_ball g bid), if snd (remove_ball g bid) then alive - {bid} else alive)"
proof (cases "map_of (balls g) bid")
  case None
  then have "bid \<notin> fst ` set (balls g)" by (simp add: map_of_eq_None_keys)
  with assms None show ?thesis
    by (simp add: exactly_one_def remove_ball_def)
next
  case (Some b)
  then have "bid \<in> fst ` set (balls g)"
    by (metis map_of_eq_None_keys option.distinct(1))
  with assms Some show ?thesis
    by (auto simp: exactly_one_def remove_ball_def keys_delete)
qed

lemma exactly_one_spit_next:
  assumes "exactly_one (g, alive)"
  shows "exactly_one (fst (spit_next g pos direction speed), alive)"
proof (cases "inventory g")
  case Nil
  with assms show ?thesis by (simp add: spit_next_def)
next
  case (Cons kb rest)
  obtain k b where kb: "kb = (k, b)" by fastforce
  have "k \<in> fst ` set (inventory g)"
    using Cons kb by force
  moreover have "balls (fst (spit_next g pos direction speed))
      = AList.update k (b\<lparr>position := pos,
          velocity := (fst (normalize_vec direction) * speed, snd (normalize_vec direction) * speed)\<rparr>) (balls g)"
    "inventory (fst (spit_next g pos direction speed)) = AList.delete k (inventory g)"
    using Cons kb by (simp_all add: spit_next_def Let_def split: prod.splits)
  ultimately show ?thesis
    using assms by (auto simp: exactly_one_def keys_delete AList.dom_update)
qed

lemma exactly_one_spit_specific:
  assumes "exactly_one (g, alive)"
  shows "exactly_one (fst (spit_specific g bid pos direction speed), alive)"
proof (cases "map_of (inventory g) bid")
  case None
  with assms show ?thesis by (simp add: spit_specific_def)
next
  case (Some b)
  then have "bid \<in> fst ` set (inventory g)"
    by (metis map_of_eq_None_keys option.distinct(1))
  moreover have "balls (fst (spit_specific g bid pos direction speed))
      = AList.update bid (b\<lparr>position := pos,
          velocity := (fst (normalize_vec direction) * speed, snd (normalize_vec direction) * speed)\<rparr>) (balls g)"
    "inventory (fst (spit_specific g bid pos direction speed)) = AList.delete bid (inventory g)"
    using Some by (simp_all add: spit_specific_def Let_def split: prod.splits)
  ultimately show ?thesis
    using assms by (auto simp: exactly_one_def keys_delete AList.dom_update)
qed

lemma capture_phase_keys:
  assumes "capture_phase s bs iv = (bs', iv', cap)"
  shows "\<exists>C. C \<subseteq> fst ` set bs \<and> fst ` set bs' = fst ` set bs - C \<and> fst ` set iv' = fst ` set iv \<union> C"
proof (cases "is_active s")
  case False
  with assms show ?thesis by (auto simp: capture_phase_def)
next
  case True
  with assms have l: "capture_loop (to_capture s bs) (bs, iv, []) = (bs', iv', cap)"
    by (simp add: capture_phase_def)
  let ?C = "set (to_capture s bs) \<inter> fst ` set bs"
  have "fst ` set bs' = fst ` set bs - ?C"
    unfolding capture_loop_balls [OF l] keys_filter by auto
  moreover have "fst ` set iv' = fst ` set iv \<union> ?C"
    by (rule capture_loop_inventory_keys [OF l])
  ultimately show ?thesis by blast
qed

lemma step_skipped:
  "dt \<le> 0 \<Longrightarrow> step g dt =
     (g, Inr \<lparr>time_advanced_s = 0, mixed_pairs = [], deleted_ball_ids = [],
              captured_ball_ids = [], released_ball_ids = []\<rparr>)"
  by (simp add: step_def max_def)

lemma exactly_one_step:
  assumes "exactly_one (g, alive)"
  shows "exactly_one (fst (step g dt),
           case snd (step g dt) of Inr res \<Rightarrow> alive - set (deleted_ball_ids res) | Inl e \<Rightarrow> alive)"
proof (cases "0 < dt")
  case False
  then have "dt \<le> 0" by simp
  from step_skipped [OF this] assms show ?thesis by simp
next
  case True
  have mk: "fst ` set (moved_balls g dt) = fst ` set (balls g)"
    using moved_balls_keys [of g dt] by (metis set_map)
  from True show ?thesis
  proof (cases rule: step_cases [where g = g])
    case (raised bs3 iv3 cap bs4 ps e)
    from capture_phase_keys [OF raised(1)] obtain C where
      C: "C \<subseteq> fst ` set (balls g)" "fst ` set bs3 = fst ` set (balls g) - C"
         "fst ` set iv3 = fst ` set (inventory g) \<union> C"
      using mk by auto
    from mix_phase_keys [OF raised(2)] have "fst ` set bs4 = fst ` set bs3"
      by (metis set_map)
    with C assms raised(3) show ?thesis
      by (auto simp: exactly_one_def)
  next
    case (returned bs3 iv3 cap bs4 ps bs5 del)
    from capture_phase_keys [OF returned(1)] obtain C where
      C: "C \<subseteq> fst ` set (balls g)" "fst ` set bs3 = fst ` set (balls g) - C"
         "fst ` set iv3 = fst ` set (inventory g) \<union> C"
      using mk by auto
    from mix_phase_keys [OF returned(2)] have k4: "fst ` set bs4 = fst ` set bs3"
      by (metis set_map)
    from returned(3) have l: "delete_loop (to_delete (delete_zone g) bs4) (bs4, []) = (bs5, del)"
      by (simp add: delete_phase_def)
    have d: "set del = set (to_delete (delete_zone g) bs4) \<inter> fst ` set bs4"
      using delete_loop_deleted [OF l] by simp
    have k5: "fst ` set bs5 = fst ` set bs4 - set (to_delete (delete_zone g) bs4)"
      unfolding delete_loop_balls [OF l] by (rule keys_filter)
    from C k4 k5 d assms returned(4) show ?thesis
      by (auto simp: exactly_one_def)
  qed
qed

lemma exactly_one_apply_op:
  assumes "exactly_one (g, alive)"
    and "case c of
           AddBall pos vel r col bid_arg uuid_hex \<Rightarrow>
             snd (add_ball g pos vel r col bid_arg uuid_hex) \<notin> fst ` set (inventory g)
         | _ \<Rightarrow> True"
  shows "exactly_one (apply_op g c, alive_after g c alive)"
proof (cases c)
  case (AddBall pos vel r col bid_arg uuid_hex)
  with assms show ?thesis by (simp add: exactly_one_add_ball)
next
  case (RemoveBall bid)
  with assms(1) show ?thesis by (simp add: exactly_one_remove_ball)
next
  case (SetDeleteZone rect)
  with assms(1) show ?thesis by (simp add: exactly_one_def set_delete_zone_def)
next
  case (StartSuction pos r st cr)
  with assms(1) show ?thesis by (simp add: exactly_one_def start_suction_def Let_def)
next
  case (UpdateSuction pos)
  with assms(1) show ?thesis by (simp add: exactly_one_def update_suction_def)
next
  case StopSuction
  with assms(1) show ?thesis by (simp add: exactly_one_def stop_suction_def)
next
  case (SpitNext pos direction speed)
  with assms(1) show ?thesis by (simp add: exactly_one_spit_next)
next
  case (SpitSpecific bid pos direction speed)
  with assms(1) show ?thesis by (simp add: exactly_one_spit_specific)
next
  case (Step dt)
  with assms(1) show ?thesis by (simp add: exactly_one_step)
qed

lemma exactly_one_run_from:
  "exactly_one (g, alive) \<Longrightarrow> adds_fresh g cs \<Longrightarrow> exactly_one (run (g, alive) cs)"
proof (induction cs arbitrary: g alive)
  case Nil
  then show ?case by simp
next
  case (Cons c cs)
  from Cons.prems have "exactly_one (apply_op g c, alive_after g c alive)"
    by (intro exactly_one_apply_op) simp_all
  moreover from Cons.prems have "adds_fresh (apply_op g c) cs"
    by simp
  ultimately show ?case
    using Cons.IH by simp
qed

lemma exactly_one_init: "exactly_one (init w h dz bounce damping mixf grav, {})"
  by (simp add: exactly_one_def init_def)

text \<open>Claim C1, amended: from a new world, after every sequence of calls in which no
  \<open>add_ball\<close> uses an id that the inventory holds at the time, the active set and the
  inventory share no id, and their ids together are exactly the ids alive (created, and since
  neither removed nor deleted): an id alive is in exactly one of the two, any other id in
  neither.\<close>

theorem exactly_one_run:
  assumes "adds_fresh (init w h dz bounce damping mixf grav) cs"
  shows "exactly_one (run (init w h dz bounce damping mixf grav, {}) cs)"
  using exactly_one_init assms by (rule exactly_one_run_from)

lemma start_mouth_world:
  "start_suction (fst (add_ball demo_world (50, 50) (0, 0) 5 (0, 0, 1) (Some ''x'') ''u''))
     (50, 50) None None None = mouth_world"
  by (simp add: start_suction_def add_ball_def demo_world_def init_def mouth_world_def Let_def)

lemma mouth_world_step:
  "step mouth_world 1 =
     (mouth_world\<lparr>balls := [], inventory := [(''x'', new_Ball ''x'' (50, 50) (0, 0) 5 (0, 0, 1))]\<rparr>,
      Inr \<lparr>time_advanced_s = 1, mixed_pairs = [], deleted_ball_ids = [],
           captured_ball_ids = [''x''], released_ball_ids = []\<rparr>)"
  by (simp add: step_def mouth_world_def demo_world_def init_def new_Ball_def
        new_Suction_def Let_def moved_balls_def suction_phase_def suction_ball_def hypot_def
        integrate_phase_def integrate_ball_def integrate_motion_def boundary_def fl_numeral
        fl_less_zero_iff
        capture_phase_def to_capture_def capture_cond_def clamp_def
        mix_phase_def delete_phase_def to_delete_def contains_point_def)

text \<open>Claim C1 as stated fails: \<open>add_ball\<close> stores under the id it is given whatever the
  inventory holds, so adding \<open>x\<close> again after \<open>x\<close> was captured puts the id in both.\<close>

theorem readd_captured_id_in_both:
  "''x'' \<in> fst ` set (balls (fst (run (demo_world, {}) readd_ops)))
   \<and> ''x'' \<in> fst ` set (inventory (fst (run (demo_world, {}) readd_ops)))
   \<and> \<not> exactly_one (run (demo_world, {}) readd_ops)"
proof -
  have "fst (run (demo_world, {}) readd_ops) =
      fst (add_ball (mouth_world\<lparr>balls := [],
          inventory := [(''x'', new_Ball ''x'' (50, 50) (0, 0) 5 (0, 0, 1))]\<rparr>)
        (10, 10) (0, 0) 5 (1, 0, 0) (Some ''x'') ''u'')"
    by (simp add: readd_ops_def start_mouth_world mouth_world_step)
  then have b: "''x'' \<in> fst ` set (balls (fst (run (demo_world, {}) readd_ops)))"
    and i: "''x'' \<in> fst ` set (inventory (fst (run (demo_world, {}) readd_ops)))"
    by (simp_all add: add_ball_def Let_def)
  then have "fst ` set (balls (fst (run (demo_world, {}) readd_ops)))
      \<inter> fst ` set (inventory (fst (run (demo_world, {}) readd_ops))) \<noteq> {}"
    by blast
  then have "\<not> exactly_one (run (demo_world, {}) readd_ops)"
    by (simp add: exactly_one_def case_prod_beta)
  with b i show ?thesis by simp
qed

text \<open>A run with a capture, a second ball and a release.\<close>

theorem exactly_one_run_witness:
  "adds_fresh (init 100 100 None True 0 (1 / 2) (0, 0)) fresh_ops
   \<and> exactly_one (run (init 100 100 None True 0 (1 / 2) (0, 0), {}) fresh_ops)
   \<and> map fst (balls (fst (run (init 100 100 None True 0 (1 / 2) (0, 0), {}) fresh_ops))) = [''y'', ''x'']
   \<and> map fst (inventory (fst (run (init 100 100 None True 0 (1 / 2) (0, 0), {}) fresh_ops))) = []
   \<and> snd (run (init 100 100 None True 0 (1 / 2) (0, 0), {}) fresh_ops) = {''x'', ''y''}"
proof -
  have d: "init 100 100 None True 0 (1 / 2) (0, 0) = demo_world"
    by (simp add: demo_world_def)
  have a: "add_ball demo_world (50, 50) (0, 0) 5 (0, 0, 1) (Some ''x'') ''u''
      = (fst (add_ball demo_world (50, 50) (0, 0) 5 (0, 0, 1) (Some ''x'') ''u''), ''x'')"
    by (simp add: add_ball_def Let_def)
  have f: "adds_fresh demo_world fresh_ops"
    by (simp add: fresh_ops_def start_mouth_world mouth_world_step)
       (simp add: add_ball_def Let_def demo_world_def init_def)
  have r: "run (demo_world, {}) fresh_ops =
      (fst (spit_next (fst (add_ball (mouth_world\<lparr>balls := [],
          inventory := [(''x'', new_Ball ''x'' (50, 50) (0, 0) 5 (0, 0, 1))]\<rparr>)
        (10, 10) (0, 0) 5 (1, 0, 0) (Some ''y'') ''u'')) (1, 2) (0, 0) 10), {''x'', ''y''})"
    by (simp add: fresh_ops_def start_mouth_world mouth_world_step)
       (auto simp: add_ball_def Let_def)
  have e: "exactly_one (run (init 100 100 None True 0 (1 / 2) (0, 0), {}) fresh_ops)"
    by (rule exactly_one_run) (simp add: d f)
  show ?thesis
    using e f by (simp add: d r) (simp add: add_ball_def spit_next_def Let_def split: prod.splits)
qed

subsection \<open>Releasing an id that is active again\<close>

text \<open>Claim C10 as it is written does not hold of the code: both releases store the ball with
  \<open>self._balls[ball_id] = ball\<close>, whatever the active set holds under that id. After
  \<open>readd_ops\<close> (add \<open>x\<close>, capture it, add \<open>x\<close> again) the active set holds a red ball \<open>x\<close> at
  (10, 10) and the inventory the blue ball \<open>x\<close> captured at (50, 50). Releasing \<open>x\<close>, by
  \<open>spit_next\<close> or by \<open>spit_specific\<close>, puts the blue ball in the place of the red one, so a
  ball of the active set other than the released one is gone.\<close>

theorem spit_replaces_active_ball:
  "balls (fst (run (demo_world, {}) readd_ops))
     = [(''x'', new_Ball ''x'' (10, 10) (0, 0) 5 (1, 0, 0))]
   \<and> inventory (fst (run (demo_world, {}) readd_ops))
     = [(''x'', new_Ball ''x'' (50, 50) (0, 0) 5 (0, 0, 1))]
   \<and> snd (spit_next (fst (run (demo_world, {}) readd_ops)) (1, 2) (3, 4) 10) = Some ''x''
   \<and> balls (fst (spit_next (fst (run (demo_world, {}) readd_ops)) (1, 2) (3, 4) 10))
     = [(''x'', (new_Ball ''x'' (50, 50) (0, 0) 5 (0, 0, 1))\<lparr>position := (1, 2), velocity := (6, 8)\<rparr>)]
   \<and> inventory (fst (spit_next (fst (run (demo_world, {}) readd_ops)) (1, 2) (3, 4) 10)) = []
   \<and> snd (spit_specific (fst (run (demo_world, {}) readd_ops)) ''x'' (1, 2) (3, 4) 10) = True
   \<and> balls (fst (spit_specific (fst (run (demo_world, {}) readd_ops)) ''x'' (1, 2) (3, 4) 10))
     = [(''x'', (new_Ball ''x'' (50, 50) (0, 0) 5 (0, 0, 1))\<lparr>position := (1, 2), velocity := (6, 8)\<rparr>)]
   \<and> inventory (fst (spit_specific (fst (run (demo_world, {}) readd_ops)) ''x'' (1, 2) (3, 4) 10)) = []
   \<and> new_Ball ''x'' (10, 10) (0, 0) 5 (1, 0, 0)
       \<notin> snd ` set (balls (fst (spit_next (fst (run (demo_world, {}) readd_ops)) (1, 2) (3, 4) 10)))
   \<and> new_Ball ''x'' (10, 10) (0, 0) 5 (1, 0, 0)
       \<notin> snd ` set (balls (fst (spit_specific (fst (run (demo_world, {}) readd_ops)) ''x'' (1, 2) (3, 4) 10)))"
proof -
  define g where "g = fst (run (demo_world, {}) readd_ops)"
  have "g = fst (add_ball (mouth_world\<lparr>balls := [],
          inventory := [(''x'', new_Ball ''x'' (50, 50) (0, 0) 5 (0, 0, 1))]\<rparr>)
        (10, 10) (0, 0) 5 (1, 0, 0) (Some ''x'') ''u'')"
    by (simp add: g_def readd_ops_def start_mouth_world mouth_world_step)
  then have g: "balls g = [(''x'', new_Ball ''x'' (10, 10) (0, 0) 5 (1, 0, 0))]"
    "inventory g = [(''x'', new_Ball ''x'' (50, 50) (0, 0) 5 (0, 0, 1))]"
    by (simp_all add: add_ball_def Let_def)
  have n: "snd (spit_next g (1, 2) (3, 4) 10) = Some ''x''"
    "balls (fst (spit_next g (1, 2) (3, 4) 10))
     = [(''x'', (new_Ball ''x'' (50, 50) (0, 0) 5 (0, 0, 1))\<lparr>position := (1, 2), velocity := (6, 8)\<rparr>)]"
    "inventory (fst (spit_next g (1, 2) (3, 4) 10)) = []"
    by (simp_all add: spit_next_def g normalize_vec_3_4)
  have p: "snd (spit_specific g ''x'' (1, 2) (3, 4) 10) = True"
    "balls (fst (spit_specific g ''x'' (1, 2) (3, 4) 10))
     = [(''x'', (new_Ball ''x'' (50, 50) (0, 0) 5 (0, 0, 1))\<lparr>position := (1, 2), velocity := (6, 8)\<rparr>)]"
    "inventory (fst (spit_specific g ''x'' (1, 2) (3, 4) 10)) = []"
    by (simp_all add: spit_specific_def g normalize_vec_3_4)
  have d: "new_Ball ''x'' (10, 10) (0, 0) 5 (1, 0, 0)
      \<noteq> (new_Ball ''x'' (50, 50) (0, 0) 5 (0, 0, 1))\<lparr>position := (1, 2), velocity := (6, 8)\<rparr>"
    by (simp add: new_Ball_def)
  show ?thesis
    unfolding g_def [symmetric] using g n p d by simp
qed

subsection \<open>Well-formed dicts are kept\<close>

lemma set_update_subset: "set (AList.update k v al) \<subseteq> insert (k, v) (set al)"
  by (induction al) auto

lemma wf_dict_update:
  assumes "wf_dict d" and "ball_id b = k"
  shows "wf_dict (AList.update k b d)"
  using assms set_update_subset [of k b d]
  by (auto simp: wf_dict_def AList.distinct_update)

lemma wf_dict_filter: "wf_dict d \<Longrightarrow> wf_dict (filter P d)"
  by (auto simp: wf_dict_def distinct_map_filter)

lemma wf_dict_delete: "wf_dict d \<Longrightarrow> wf_dict (AList.delete k d)"
  by (simp add: delete_as_filter wf_dict_filter)

lemma wf_dict_map_of: "wf_dict d \<Longrightarrow> map_of d k = Some b \<Longrightarrow> ball_id b = k"
  by (auto simp: wf_dict_def dest: map_of_SomeD)

lemma capture_loop_wf:
  "capture_loop ids (bs, iv, cap) = (bs', iv', cap') \<Longrightarrow> wf_dict bs \<Longrightarrow> wf_dict iv \<Longrightarrow>
     wf_dict bs' \<and> wf_dict iv'"
proof (induction ids arbitrary: bs iv cap)
  case Nil
  then show ?case by simp
next
  case (Cons k ids)
  show ?case
  proof (cases "map_of bs k")
    case None
    with Cons show ?thesis by simp
  next
    case (Some ball)
    with Cons.prems(1) have l: "capture_loop ids (AList.delete k bs, AList.update k ball iv, cap @ [k])
        = (bs', iv', cap')"
      by simp
    from wf_dict_map_of [OF Cons.prems(2) Some] have "wf_dict (AList.update k ball iv)"
      using Cons.prems(3) by (simp add: wf_dict_update)
    with Cons.IH [OF l wf_dict_delete [OF Cons.prems(2)]] show ?thesis
      by simp
  qed
qed

lemma capture_phase_wf:
  assumes "capture_phase s bs iv = (bs', iv', cap)" and "wf_dict bs" and "wf_dict iv"
  shows "wf_dict bs' \<and> wf_dict iv'"
proof (cases "is_active s")
  case False
  with assms show ?thesis by (simp add: capture_phase_def)
next
  case True
  with assms(1) have "capture_loop (to_capture s bs) (bs, iv, []) = (bs', iv', cap)"
    by (simp add: capture_phase_def)
  from capture_loop_wf [OF this assms(2,3)] show ?thesis .
qed

lemma mix_phase_wf:
  assumes "mix_phase t bs = (bs', ps, e)" and "wf_dict bs"
  shows "wf_dict bs'"
proof -
  have "distinct (map fst bs')"
    using mix_phase_keys [OF assms(1)] assms(2) by (simp add: wf_dict_def)
  moreover have "ball_id b' = k" if "(k, b') \<in> set bs'" for k b'
  proof -
    from mix_phase_recolored [OF assms(1) that] obtain b where "(k, b) \<in> set bs" "recolored b b'"
      by blast
    with assms(2) show ?thesis
      by (auto simp: wf_dict_def recolored_def)
  qed
  ultimately show ?thesis
    by (auto simp: wf_dict_def)
qed

lemma delete_phase_wf:
  assumes "delete_phase z bs = (bs', del)" and "wf_dict bs"
  shows "wf_dict bs'"
  using delete_loop_balls [of "to_delete z bs" bs "[]" bs' del] assms
  by (simp add: delete_phase_def wf_dict_filter)

lemma wf_world_step:
  assumes "wf_world g"
  shows "wf_world (fst (step g dt))"
proof (cases "0 < dt")
  case False
  then have "dt \<le> 0" by simp
  from step_skipped [OF this] assms show ?thesis by simp
next
  case True
  from assms have mv: "wf_dict (moved_balls g dt)" and iv: "wf_dict (inventory g)"
    by (simp_all add: wf_world_def moved_balls_wf)
  from True show ?thesis
  proof (cases rule: step_cases [where g = g])
    case (raised bs3 iv3 cap bs4 ps e)
    from capture_phase_wf [OF raised(1) mv iv] mix_phase_wf [OF raised(2)] raised(3)
    show ?thesis by (simp add: wf_world_def)
  next
    case (returned bs3 iv3 cap bs4 ps bs5 del)
    from capture_phase_wf [OF returned(1) mv iv] mix_phase_wf [OF returned(2)]
      delete_phase_wf [OF returned(3)] returned(4)
    show ?thesis by (simp add: wf_world_def)
  qed
qed

lemma wf_world_spit_next:
  assumes "wf_world g"
  shows "wf_world (fst (spit_next g pos direction speed))"
proof (cases "inventory g")
  case Nil
  with assms show ?thesis by (simp add: spit_next_def)
next
  case (Cons kb rest)
  obtain k b where kb: "kb = (k, b)" by fastforce
  from assms Cons kb have "ball_id b = k"
    by (auto simp: wf_world_def wf_dict_def)
  moreover from assms have "wf_dict (AList.delete k (inventory g))" "wf_dict (balls g)"
    by (simp_all add: wf_world_def wf_dict_delete)
  moreover have "spit_next g pos direction speed =
      (g\<lparr>inventory := AList.delete k (inventory g),
         balls := AList.update k (b\<lparr>position := pos,
           velocity := (fst (normalize_vec direction) * speed,
                        snd (normalize_vec direction) * speed)\<rparr>) (balls g)\<rparr>, Some k)"
    using Cons kb by (simp add: spit_next_def Let_def split: prod.splits)
  ultimately show ?thesis
    by (simp add: wf_world_def wf_dict_update)
qed

lemma wf_world_spit_specific:
  assumes "wf_world g"
  shows "wf_world (fst (spit_specific g bid pos direction speed))"
proof (cases "map_of (inventory g) bid")
  case None
  with assms show ?thesis by (simp add: spit_specific_def)
next
  case (Some b)
  from assms have w: "wf_dict (inventory g)" "wf_dict (balls g)"
    by (simp_all add: wf_world_def)
  from wf_dict_map_of [OF w(1) Some] have "ball_id b = bid" .
  with w Some show ?thesis
    by (simp add: spit_specific_def Let_def wf_world_def wf_dict_update wf_dict_delete
        split: prod.splits)
qed

lemma wf_world_apply_op: "wf_world g \<Longrightarrow> wf_world (apply_op g c)"
proof (cases c)
  case (AddBall pos vel r col bid_arg uuid_hex)
  assume "wf_world g"
  with AddBall show ?thesis
    by (simp add: add_ball_def Let_def wf_world_def wf_dict_update new_Ball_def)
next
  case (RemoveBall bid)
  assume "wf_world g"
  with RemoveBall show ?thesis
    by (simp add: remove_ball_def wf_world_def wf_dict_delete)
next
  case (SetDeleteZone rect)
  assume "wf_world g"
  with SetDeleteZone show ?thesis by (simp add: wf_world_def set_delete_zone_def)
next
  case (StartSuction pos r st cr)
  assume "wf_world g"
  with StartSuction show ?thesis by (simp add: wf_world_def start_suction_def Let_def)
next
  case (UpdateSuction pos)
  assume "wf_world g"
  with UpdateSuction show ?thesis by (simp add: wf_world_def update_suction_def)
next
  case StopSuction
  assume "wf_world g"
  with StopSuction show ?thesis by (simp add: wf_world_def stop_suction_def)
next
  case (SpitNext pos direction speed)
  assume "wf_world g"
  with SpitNext show ?thesis by (simp add: wf_world_spit_next)
next
  case (SpitSpecific bid pos direction speed)
  assume "wf_world g"
  with SpitSpecific show ?thesis by (simp add: wf_world_spit_specific)
next
  case (Step dt)
  assume "wf_world g"
  with Step show ?thesis by (simp add: wf_world_step)
qed

text \<open>Every world reached from a new one by the calls of the class is well-formed: the
  hypothesis \<open>wf_dict\<close> of the theorems above excludes no state of a running program.\<close>

lemma wf_world_init: "wf_world (init w h dz bounce damping mixf grav)"
  by (simp add: wf_world_def wf_dict_def init_def)

lemma wf_world_run: "wf_world g \<Longrightarrow> wf_world (fst (run (g, alive) cs))"
  by (induction cs arbitrary: g alive) (simp_all add: wf_world_apply_op)

end
